theory Spec2Isabelle
  imports Main "HOL-Library.Signed_Division"
begin

section \<open>The model-time discretisation of \<^verbatim>\<open>model_time.cpp\<close>\<close>

text \<open>
  The class \<^verbatim>\<open>Modeltime\<close> turns nine configuration scalars into the period schedule of
  the simulation.  Its method \<^verbatim>\<open>set\<close> computes the derived state and
  \<^verbatim>\<open>getyr_to_per\<close> reads the year-to-period map.

  C++ \<^verbatim>\<open>int\<close> values are modelled by mathematical integers.  Signed overflow has no
  defined behaviour in C++, so the model agrees with the program wherever the program has a
  meaning; \<^verbatim>\<open>/\<close> and \<^verbatim>\<open>%\<close> truncate towards zero (\<open>sdiv\<close>, \<open>smod\<close>).
  Everything else that has no result in C++ is an explicit error value: division by zero,
  \<^verbatim>\<open>vector::resize\<close> with a negative count, \<^verbatim>\<open>vector::operator[]\<close> out of range.
\<close>

subsection \<open>Logging collaborator\<close>

text \<open>
  Modelled from the spec: the logger's header \<^verbatim>\<open>ilogger.h\<close> is not among the sources.
  The logging collaborator receives two categories of message, \<open>WARNING\<close> and \<open>ERROR\<close>.
  Each statement \<^verbatim>\<open>mainLog.setLevel( L ); mainLog << a << b << endl;\<close> of
  \<^verbatim>\<open>model_time.cpp\<close> appends one line, tagged with its level, to the log; a line is the
  sequence of the inserted strings and integers.
\<close>

datatype WarningLevel = WARNING | ERROR

datatype log_item = Text string | Number int

type_synonym ILogger = "(WarningLevel \<times> log_item list) list"

definition log_line :: "WarningLevel \<Rightarrow> log_item list \<Rightarrow> ILogger \<Rightarrow> ILogger" where
  "log_line lvl items lg = lg @ [(lvl, items)]"

subsection \<open>Errors, vectors and the map\<close>

datatype error = DivideByZero | LengthError | OutOfRange

definition and_then :: "error + 'a \<Rightarrow> ('a \<Rightarrow> error + 'b) \<Rightarrow> error + 'b" where
  "and_then r f = (case r of Inl e \<Rightarrow> Inl e | Inr x \<Rightarrow> f x)"

definition divide :: "int \<Rightarrow> int \<Rightarrow> error + int" where
  "divide a b = (if b = 0 then Inl DivideByZero else Inr (a sdiv b))"

definition modulo :: "int \<Rightarrow> int \<Rightarrow> error + int" where
  "modulo a b = (if b = 0 then Inl DivideByZero else Inr (a smod b))"

text \<open>\<^verbatim>\<open>v.resize( n )\<close> with an \<^verbatim>\<open>int\<close> count: a negative count converts to a huge
  unsigned size and \<^verbatim>\<open>resize\<close> throws; otherwise old elements are kept and new ones are 0.\<close>

definition vec_resize :: "int list \<Rightarrow> int \<Rightarrow> error + int list" where
  "vec_resize v n =
     (if n < 0 then Inl LengthError
      else Inr (take (nat n) v @ replicate (nat n - length v) 0))"

text \<open>\<^verbatim>\<open>v[ i ]\<close> read and \<^verbatim>\<open>v[ i ] = x\<close>.\<close>

definition vec_at :: "int list \<Rightarrow> int \<Rightarrow> error + int" where
  "vec_at v i = (if 0 \<le> i \<and> i < int (length v) then Inr (v ! nat i) else Inl OutOfRange)"

definition vec_assign :: "int list \<Rightarrow> int \<Rightarrow> int \<Rightarrow> error + int list" where
  "vec_assign v i x =
     (if 0 \<le> i \<and> i < int (length v) then Inr (v[nat i := x]) else Inl OutOfRange)"

text \<open>\<^verbatim>\<open>std::map<int,int>::operator[]\<close> used as a read: a missing key is inserted with
  the value 0, which is also the value read.\<close>

definition map_subscript :: "(int \<rightharpoonup> int) \<Rightarrow> int \<Rightarrow> int \<times> (int \<rightharpoonup> int)" where
  "map_subscript m k = (case m k of None \<Rightarrow> (0, m(k \<mapsto> 0)) | Some v \<Rightarrow> (v, m))"

subsection \<open>The object\<close>

text \<open>
  Modelled from the spec: the class declaration \<^verbatim>\<open>model_time.h\<close> is not among the sources.
  The fields are the members that \<^verbatim>\<open>model_time.cpp\<close> initialises and uses, with the types
  of the spec's data model: integers, sequences of integers indexed by period, and the map
  from years to periods (\<^verbatim>\<open>map<int,int>\<close> in \<^verbatim>\<open>getyr_to_per\<close>).
\<close>

record Modeltime =
  startYear :: int
  interYear1 :: int
  interYear2 :: int
  endYear :: int
  dataEndYear :: int
  maxPeriod :: int
  maxDataPeriod :: int
  dataTimeStep :: int
  timeStep1 :: int
  timeStep2 :: int
  timeStep3 :: int
  numberOfPeriods1 :: int
  numberOfPeriods1a :: int
  numberOfPeriods2 :: int
  numberOfPeriods2a :: int
  numberOfPeriods3 :: int
  numberOfPeriods3a :: int
  periodToTimeStep :: "int list"
  dataOffset :: "int list"
  modelPeriodToYear :: "int list"
  dataPeriodToModelPeriod :: "int list"
  yearToModelPeriod :: "int \<rightharpoonup> int"

text \<open>The default constructor: \<^verbatim>\<open>initElementalMembers\<close> zeroes the scalars, the vectors
  and the map are default-constructed (empty).\<close>

definition initElementalMembers :: "Modeltime \<Rightarrow> Modeltime" where
  "initElementalMembers mt =
     mt\<lparr>startYear := 0, interYear1 := 0, interYear2 := 0, endYear := 0, dataEndYear := 0,
        maxPeriod := 0, maxDataPeriod := 0, dataTimeStep := 0,
        timeStep1 := 0, timeStep2 := 0, timeStep3 := 0,
        numberOfPeriods1 := 0, numberOfPeriods1a := 0, numberOfPeriods2 := 0,
        numberOfPeriods2a := 0, numberOfPeriods3 := 0, numberOfPeriods3a := 0\<rparr>"

definition Modeltime_new :: Modeltime where
  "Modeltime_new =
     initElementalMembers
       \<lparr>startYear = 0, interYear1 = 0, interYear2 = 0, endYear = 0, dataEndYear = 0,
        maxPeriod = 0, maxDataPeriod = 0, dataTimeStep = 0,
        timeStep1 = 0, timeStep2 = 0, timeStep3 = 0,
        numberOfPeriods1 = 0, numberOfPeriods1a = 0, numberOfPeriods2 = 0,
        numberOfPeriods2a = 0, numberOfPeriods3 = 0, numberOfPeriods3a = 0,
        periodToTimeStep = [], dataOffset = [], modelPeriodToYear = [],
        dataPeriodToModelPeriod = [], yearToModelPeriod = Map.empty\<rparr>"

text \<open>What \<^verbatim>\<open>XMLParse\<close> does to a fresh object, with the values already extracted from
  the document: the nine scalars are stored, nothing else changes.\<close>

definition configure ::
  "int \<Rightarrow> int \<Rightarrow> int \<Rightarrow> int \<Rightarrow> int \<Rightarrow> int \<Rightarrow> int \<Rightarrow> int \<Rightarrow> int \<Rightarrow> Modeltime" where
  "configure sy iy1 iy2 ey ts1 ts2 ts3 dey dts =
     Modeltime_new\<lparr>startYear := sy, interYear1 := iy1, interYear2 := iy2, endYear := ey,
                   timeStep1 := ts1, timeStep2 := ts2, timeStep3 := ts3,
                   dataEndYear := dey, dataTimeStep := dts\<rparr>"

subsection \<open>\<^verbatim>\<open>Modeltime::set\<close>\<close>

text \<open>Lines 179--212: the period counts, the remainders and their warnings.  The three
  remainders are locals of \<^verbatim>\<open>set\<close> that the later loops read, so they are returned.\<close>

definition set_counts ::
  "Modeltime \<Rightarrow> ILogger \<Rightarrow> error + (Modeltime \<times> ILogger \<times> int \<times> int \<times> int)" where
  "set_counts mt lg =
     and_then (divide (interYear1 mt - startYear mt) (timeStep1 mt)) (\<lambda>q1.
     and_then (divide (interYear2 mt - interYear1 mt) (timeStep2 mt)) (\<lambda>q2.
     and_then (divide (endYear mt - interYear2 mt) (timeStep3 mt)) (\<lambda>q3.
     and_then (modulo (interYear1 mt - startYear mt) (timeStep1 mt)) (\<lambda>rem1.
     and_then (modulo (interYear2 mt - interYear1 mt) (timeStep2 mt)) (\<lambda>rem2.
     and_then (modulo (endYear mt - interYear2 mt) (timeStep3 mt)) (\<lambda>rem3.
     let n1 = q1 + 1; n2 = q2; n3 = q3;
         n1a = (if rem1 \<noteq> 0 then n1 + 1 else n1);
         lg1 = (if rem1 \<noteq> 0
                then log_line WARNING [Text ''first time interval not divisible timeStep1''] lg
                else lg);
         n2a = (if rem2 \<noteq> 0 then n2 + 1 else n2);
         lg2 = (if rem2 \<noteq> 0
                then log_line WARNING [Text ''Second time interval not divisible timeStep2''] lg1
                else lg1);
         n3a = (if rem3 \<noteq> 0 then n3 + 1 else n3);
         lg3 = (if rem3 \<noteq> 0
                then log_line WARNING [Text ''Third time interval not divisible timeStep3''] lg2
                else lg2)
     in
     and_then (divide (dataEndYear mt - startYear mt) (dataTimeStep mt)) (\<lambda>qd.
       Inr (mt\<lparr>numberOfPeriods1 := n1, numberOfPeriods2 := n2, numberOfPeriods3 := n3,
               numberOfPeriods1a := n1a, numberOfPeriods2a := n2a, numberOfPeriods3a := n3a,
               maxPeriod := n1a + n2a + n3a, maxDataPeriod := qd + 1\<rparr>,
            lg3, rem1, rem2, rem3))))))))"

text \<open>The loops \<^verbatim>\<open>for( int i = lo; i < hi; i++ ) periodToTimeStep[ i ] = x;\<close>\<close>

function fill :: "int \<Rightarrow> int \<Rightarrow> int \<Rightarrow> int list \<Rightarrow> error + int list" where
  "fill i hi x v =
     (if i < hi
      then (case vec_assign v i x of Inl e \<Rightarrow> Inl e | Inr v' \<Rightarrow> fill (i + 1) hi x v')
      else Inr v)"
  by pat_completeness auto
termination
  by (relation "measure (\<lambda>(i, hi, x, v). nat (hi - i))") auto

text \<open>Lines 215--234.\<close>

definition set_timesteps :: "Modeltime \<Rightarrow> int \<Rightarrow> int \<Rightarrow> int \<Rightarrow> error + Modeltime" where
  "set_timesteps mt rem1 rem2 rem3 =
     and_then (vec_resize (periodToTimeStep mt) (maxPeriod mt)) (\<lambda>v0.
     and_then (fill 0 (numberOfPeriods1 mt) (timeStep1 mt) v0) (\<lambda>v1.
     and_then (fill (numberOfPeriods1 mt) (numberOfPeriods1a mt) rem1 v1) (\<lambda>v2.
     and_then (fill (numberOfPeriods1a mt) (numberOfPeriods1a mt + numberOfPeriods2 mt)
                 (timeStep2 mt) v2) (\<lambda>v3.
     and_then (fill (numberOfPeriods1a mt + numberOfPeriods2 mt)
                 (numberOfPeriods1a mt + numberOfPeriods2a mt) rem2 v3) (\<lambda>v4.
     and_then (fill (numberOfPeriods1a mt + numberOfPeriods2a mt)
                 (numberOfPeriods1a mt + numberOfPeriods2a mt + numberOfPeriods3 mt)
                 (timeStep3 mt) v4) (\<lambda>v5.
     and_then (fill (numberOfPeriods1a mt + numberOfPeriods2a mt + numberOfPeriods3 mt)
                 (numberOfPeriods1a mt + numberOfPeriods2a mt + numberOfPeriods3a mt)
                 rem3 v5) (\<lambda>v6.
       Inr (mt\<lparr>periodToTimeStep := v6\<rparr>))))))))"

text \<open>Lines 250--252: the years strictly between two period years.\<close>

function between_years ::
  "int \<Rightarrow> int \<Rightarrow> int \<Rightarrow> int \<Rightarrow> (int \<rightharpoonup> int) \<Rightarrow> (int \<rightharpoonup> int)" where
  "between_years y step baseyr i ym =
     (if y < step then between_years (y + 1) step baseyr i (ym(baseyr + y \<mapsto> i)) else ym)"
  by pat_completeness auto
termination
  by (relation "measure (\<lambda>(y, step, baseyr, i, ym). nat (step - y))") auto

text \<open>Lines 244--255: the walk over the periods \<open>1 .. maxPeriod - 1\<close>.\<close>

function year_loop ::
  "int list \<Rightarrow> int \<Rightarrow> int \<Rightarrow> int \<Rightarrow> (int \<rightharpoonup> int) \<Rightarrow> int list
     \<Rightarrow> error + ((int \<rightharpoonup> int) \<times> int list)" where
  "year_loop steps n i baseyr ym yrs =
     (if i < n
      then (case vec_at steps i of
              Inl e \<Rightarrow> Inl e
            | Inr step \<Rightarrow>
               (case vec_assign yrs i (baseyr + step) of
                  Inl e \<Rightarrow> Inl e
                | Inr yrs' \<Rightarrow>
                    year_loop steps n (i + 1) (baseyr + step)
                      (if step > 1
                       then between_years 1 step baseyr i (ym(baseyr + step \<mapsto> i))
                       else ym(baseyr + step \<mapsto> i))
                      yrs'))
      else Inr (ym, yrs))"
  by pat_completeness auto
termination
  by (relation "measure (\<lambda>(steps, n, i, baseyr, ym, yrs). nat (n - i))") auto

text \<open>Lines 238--255.\<close>

definition set_years :: "Modeltime \<Rightarrow> error + Modeltime" where
  "set_years mt =
     (let baseyr = startYear mt;
          ym0 = (yearToModelPeriod mt)(baseyr \<mapsto> 0)
      in
      and_then (vec_resize (modelPeriodToYear mt) (maxPeriod mt)) (\<lambda>yrs0.
      and_then (vec_assign yrs0 0 baseyr) (\<lambda>yrs1.
      and_then (year_loop (periodToTimeStep mt) (maxPeriod mt) 1 baseyr ym0 yrs1)
        (\<lambda>(ym, yrs).
           Inr (mt\<lparr>yearToModelPeriod := ym, modelPeriodToYear := yrs\<rparr>)))))"

text \<open>Lines 262--271: the alignment of the data grid.  \<open>same\<close> is the test
  \<^verbatim>\<open>maxDataPeriod == maxPeriod\<close>, which the loop does not change.\<close>

function data_loop ::
  "int list \<Rightarrow> int \<Rightarrow> int \<Rightarrow> bool \<Rightarrow> int \<Rightarrow> int \<Rightarrow> (int \<rightharpoonup> int) \<Rightarrow> int list \<Rightarrow> int list
     \<Rightarrow> error + ((int \<rightharpoonup> int) \<times> int list \<times> int list)" where
  "data_loop steps start dts same n i ym off d2m =
     (if i < n
      then (case map_subscript ym (start + i * dts) of
              (m, ym') \<Rightarrow>
               (case (if same then vec_assign off i 0
                      else and_then (vec_at steps m) (\<lambda>s.
                           and_then (divide dts s) (\<lambda>q. vec_assign off i q))) of
                  Inl e \<Rightarrow> Inl e
                | Inr off' \<Rightarrow>
                   (case vec_assign d2m i m of
                      Inl e \<Rightarrow> Inl e
                    | Inr d2m' \<Rightarrow> data_loop steps start dts same n (i + 1) ym' off' d2m')))
      else Inr (ym, off, d2m))"
  by pat_completeness auto
termination
  by (relation "measure (\<lambda>(steps, start, dts, same, n, i, ym, off, d2m). nat (n - i))") auto

text \<open>Lines 258--271.\<close>

definition set_data :: "Modeltime \<Rightarrow> error + Modeltime" where
  "set_data mt =
     and_then (vec_resize (dataOffset mt) (maxDataPeriod mt)) (\<lambda>off0.
     and_then (vec_resize (dataPeriodToModelPeriod mt) (maxDataPeriod mt)) (\<lambda>d2m0.
     and_then (data_loop (periodToTimeStep mt) (startYear mt) (dataTimeStep mt)
                 (maxDataPeriod mt = maxPeriod mt) (maxDataPeriod mt) 0
                 (yearToModelPeriod mt) off0 d2m0)
       (\<lambda>(ym, off, d2m).
          Inr (mt\<lparr>yearToModelPeriod := ym, dataOffset := off,
                  dataPeriodToModelPeriod := d2m\<rparr>))))"

text \<open>The whole of \<^verbatim>\<open>Modeltime::set\<close> (lines 177--272).\<close>

definition set_Modeltime :: "Modeltime \<Rightarrow> ILogger \<Rightarrow> error + (Modeltime \<times> ILogger)" where
  "set_Modeltime mt lg =
     and_then (set_counts mt lg) (\<lambda>(mt1, lg1, rem1, rem2, rem3).
     and_then (set_timesteps mt1 rem1 rem2 rem3) (\<lambda>mt2.
     and_then (set_years mt2) (\<lambda>mt3.
     and_then (set_data mt3) (\<lambda>mt4. Inr (mt4, lg1)))))"

subsection \<open>\<^verbatim>\<open>Modeltime::getyr_to_per\<close>\<close>

text \<open>The method is \<^verbatim>\<open>const\<close>: it reads the object and can only change the log.\<close>

definition getyr_to_per :: "Modeltime \<Rightarrow> int \<Rightarrow> ILogger \<Rightarrow> int \<times> ILogger" where
  "getyr_to_per mt year lg =
     (case yearToModelPeriod mt year of
        None \<Rightarrow>
          (0, log_line ERROR
                [Text ''Invalid year: '', Number year,
                 Text '' passed to Modeltime::getyr_to_per. ''] lg)
      | Some p \<Rightarrow> (p, lg))"

definition getBasePeriod :: "Modeltime \<Rightarrow> ILogger \<Rightarrow> int \<times> ILogger" where
  "getBasePeriod mt lg = getyr_to_per mt (startYear mt) lg"


declare fill.simps [simp del] between_years.simps [simp del] year_loop.simps [simp del]
  data_loop.simps [simp del]

subsection \<open>Valid configurations\<close>

text \<open>
  The year boundaries increase strictly and every step length is positive.  The data grid
  starts at \<open>startYear\<close> and must not end before it: otherwise \<open>maxDataPeriod\<close> can be
  negative and \<^verbatim>\<open>resize\<close> throws.
\<close>

definition valid_config :: "Modeltime \<Rightarrow> bool" where
  "valid_config mt \<longleftrightarrow>
     startYear mt < interYear1 mt \<and> interYear1 mt < interYear2 mt \<and>
     interYear2 mt < endYear mt \<and>
     0 < timeStep1 mt \<and> 0 < timeStep2 mt \<and> 0 < timeStep3 mt \<and>
     0 < dataTimeStep mt \<and> startYear mt \<le> dataEndYear mt"

text \<open>The object as the constructor and the loader leave it: \<^verbatim>\<open>set\<close> has not run, the
  vectors and the map are empty.\<close>

definition unfinalized :: "Modeltime \<Rightarrow> bool" where
  "unfinalized mt \<longleftrightarrow>
     periodToTimeStep mt = [] \<and> dataOffset mt = [] \<and> modelPeriodToYear mt = [] \<and>
     dataPeriodToModelPeriod mt = [] \<and> yearToModelPeriod mt = Map.empty"

subsection \<open>What \<^verbatim>\<open>set\<close> computes, phase by phase\<close>

text \<open>The locals \<^verbatim>\<open>rem1\<close>, \<^verbatim>\<open>rem2\<close>, \<^verbatim>\<open>rem3\<close> of lines 188--190.\<close>

definition rem1 :: "Modeltime \<Rightarrow> int" where
  "rem1 mt = (interYear1 mt - startYear mt) smod timeStep1 mt"

definition rem2 :: "Modeltime \<Rightarrow> int" where
  "rem2 mt = (interYear2 mt - interYear1 mt) smod timeStep2 mt"

definition rem3 :: "Modeltime \<Rightarrow> int" where
  "rem3 mt = (endYear mt - interYear2 mt) smod timeStep3 mt"

text \<open>The three warnings, in the order of lines 192--209.\<close>

definition warning1 :: "WarningLevel \<times> log_item list" where
  "warning1 = (WARNING, [Text ''first time interval not divisible timeStep1''])"

definition warning2 :: "WarningLevel \<times> log_item list" where
  "warning2 = (WARNING, [Text ''Second time interval not divisible timeStep2''])"

definition warning3 :: "WarningLevel \<times> log_item list" where
  "warning3 = (WARNING, [Text ''Third time interval not divisible timeStep3''])"

definition warnings :: "Modeltime \<Rightarrow> ILogger \<Rightarrow> ILogger" where
  "warnings mt lg =
     lg @ (if rem1 mt \<noteq> 0 then [warning1] else [])
        @ (if rem2 mt \<noteq> 0 then [warning2] else [])
        @ (if rem3 mt \<noteq> 0 then [warning3] else [])"

text \<open>The object after lines 179--212, when no step is zero.\<close>

definition with_counts :: "Modeltime \<Rightarrow> Modeltime" where
  "with_counts mt =
     mt\<lparr>numberOfPeriods1 := (interYear1 mt - startYear mt) sdiv timeStep1 mt + 1,
        numberOfPeriods2 := (interYear2 mt - interYear1 mt) sdiv timeStep2 mt,
        numberOfPeriods3 := (endYear mt - interYear2 mt) sdiv timeStep3 mt,
        numberOfPeriods1a := (interYear1 mt - startYear mt) sdiv timeStep1 mt + 1
                               + (if rem1 mt \<noteq> 0 then 1 else 0),
        numberOfPeriods2a := (interYear2 mt - interYear1 mt) sdiv timeStep2 mt
                               + (if rem2 mt \<noteq> 0 then 1 else 0),
        numberOfPeriods3a := (endYear mt - interYear2 mt) sdiv timeStep3 mt
                               + (if rem3 mt \<noteq> 0 then 1 else 0),
        maxPeriod := (interYear1 mt - startYear mt) sdiv timeStep1 mt + 1
                       + (if rem1 mt \<noteq> 0 then 1 else 0)
                     + ((interYear2 mt - interYear1 mt) sdiv timeStep2 mt
                       + (if rem2 mt \<noteq> 0 then 1 else 0))
                     + ((endYear mt - interYear2 mt) sdiv timeStep3 mt
                       + (if rem3 mt \<noteq> 0 then 1 else 0)),
        maxDataPeriod := (dataEndYear mt - startYear mt) sdiv dataTimeStep mt + 1\<rparr>"

text \<open>The contents of \<open>periodToTimeStep\<close> after the six loops of lines 217--234, era by
  era: full steps, then the remainder period if there is one.\<close>

definition expected_steps :: "Modeltime \<Rightarrow> int \<Rightarrow> int \<Rightarrow> int \<Rightarrow> int list" where
  "expected_steps mt r1 r2 r3 =
     replicate (nat (numberOfPeriods1 mt)) (timeStep1 mt) @
     replicate (nat (numberOfPeriods1a mt - numberOfPeriods1 mt)) r1 @
     replicate (nat (numberOfPeriods2 mt)) (timeStep2 mt) @
     replicate (nat (numberOfPeriods2a mt - numberOfPeriods2 mt)) r2 @
     replicate (nat (numberOfPeriods3 mt)) (timeStep3 mt) @
     replicate (nat (numberOfPeriods3a mt - numberOfPeriods3 mt)) r3"

text \<open>The value that \<^verbatim>\<open>yearToModelPeriod[ y ]\<close> reads.\<close>

definition lookup0 :: "(int \<rightharpoonup> int) \<Rightarrow> int \<Rightarrow> int" where
  "lookup0 ym y = (case ym y of None \<Rightarrow> 0 | Some v \<Rightarrow> v)"

text \<open>The years of the data grid: \<open>startYear + i * dataTimeStep\<close> for \<open>i < n\<close>.\<close>

definition on_data_grid :: "int \<Rightarrow> int \<Rightarrow> nat \<Rightarrow> int \<Rightarrow> bool" where
  "on_data_grid start dts n y \<longleftrightarrow> (\<exists>k<n. y = start + int k * dts)"

text \<open>The period years: one entry per step, the first is the start year, each later one
  adds its period's step to the year before.\<close>

definition years_built :: "int list \<Rightarrow> int \<Rightarrow> int list \<Rightarrow> bool" where
  "years_built steps start yrs \<longleftrightarrow>
     length yrs = length steps \<and> yrs \<noteq> [] \<and> yrs ! 0 = start \<and>
     (\<forall>k. 1 \<le> k \<and> k < length yrs \<longrightarrow> yrs ! k = yrs ! (k - 1) + steps ! k)"

text \<open>The map over the period years: the start year is period 0, a year in
  \<open>(yrs ! (k - 1), yrs ! k]\<close> is period \<open>k\<close>, every year from the first to the last period
  year lies in one such interval, and outside them the map is \<open>ym0\<close>.\<close>

definition years_mapped :: "int list \<Rightarrow> (int \<rightharpoonup> int) \<Rightarrow> (int \<rightharpoonup> int) \<Rightarrow> bool" where
  "years_mapped yrs ym0 ym \<longleftrightarrow>
     ym (yrs ! 0) = Some 0 \<and>
     (\<forall>k y. 1 \<le> k \<and> k < length yrs \<and> yrs ! (k - 1) < y \<and> y \<le> yrs ! k
        \<longrightarrow> ym y = Some (int k)) \<and>
     (\<forall>y. yrs ! 0 < y \<and> y \<le> last yrs
        \<longrightarrow> (\<exists>k. 1 \<le> k \<and> k < length yrs \<and> yrs ! (k - 1) < y \<and> y \<le> yrs ! k)) \<and>
     (\<forall>y. y < yrs ! 0 \<or> last yrs < y \<longrightarrow> ym y = ym0 y) \<and>
     yrs ! 0 \<le> last yrs"

text \<open>The data alignment of lines 262--271 over the map \<open>ym\<close> left by the year walk.\<close>

definition data_aligned ::
  "int list \<Rightarrow> int \<Rightarrow> int \<Rightarrow> bool \<Rightarrow> nat \<Rightarrow> (int \<rightharpoonup> int) \<Rightarrow> (int \<rightharpoonup> int) \<Rightarrow> int list \<Rightarrow> int list
     \<Rightarrow> bool" where
  "data_aligned steps start dts same n ym ymF off d2m \<longleftrightarrow>
     length off = n \<and> length d2m = n \<and>
     (\<forall>k<n. d2m ! k = lookup0 ym (start + int k * dts)) \<and>
     (\<forall>k<n. off ! k = (if same then 0 else dts sdiv steps ! nat (d2m ! k))) \<and>
     (\<forall>y. ymF y = (if ym y = None \<and> on_data_grid start dts n y then Some 0 else ym y))"

text \<open>The step list that \<^verbatim>\<open>set\<close> leaves in \<open>periodToTimeStep\<close>.\<close>

definition steps_of :: "Modeltime \<Rightarrow> int list" where
  "steps_of mt = expected_steps (with_counts mt) (rem1 mt) (rem2 mt) (rem3 mt)"

text \<open>Lines 179--255 alone: \<^verbatim>\<open>set\<close> up to the end of the walk over the periods, before
  the data alignment.  \<^verbatim>\<open>set\<close> is this followed by \<open>set_data\<close> (lemma
  \<open>set_Modeltime_phases\<close>).\<close>

definition set_upto_years :: "Modeltime \<Rightarrow> ILogger \<Rightarrow> error + (Modeltime \<times> ILogger)" where
  "set_upto_years mt lg =
     and_then (set_counts mt lg) (\<lambda>(mt1, lg1, rem1, rem2, rem3).
     and_then (set_timesteps mt1 rem1 rem2 rem3) (\<lambda>mt2.
     and_then (set_years mt2) (\<lambda>mt3. Inr (mt3, lg1))))"

text \<open>Every period index stored in the map is below \<open>n\<close>.\<close>

definition map_below :: "(int \<rightharpoonup> int) \<Rightarrow> int \<Rightarrow> bool" where
  "map_below ym n \<longleftrightarrow> (\<forall>y v. ym y = Some v \<longrightarrow> 0 \<le> v \<and> v < n)"

text \<open>The object \<open>mt3\<close> that lines 179--255 make of \<open>mt\<close>: the scalars of \<open>with_counts\<close>,
  the step list, the period years and the year map of the walk.\<close>

definition walked :: "Modeltime \<Rightarrow> Modeltime \<Rightarrow> bool" where
  "walked mt mt3 \<longleftrightarrow>
     mt3 = (with_counts mt)
             \<lparr>periodToTimeStep := steps_of mt,
              modelPeriodToYear := modelPeriodToYear mt3,
              yearToModelPeriod := yearToModelPeriod mt3\<rparr> \<and>
     years_built (steps_of mt) (startYear mt) (modelPeriodToYear mt3) \<and>
     years_mapped (modelPeriodToYear mt3) (yearToModelPeriod mt) (yearToModelPeriod mt3) \<and>
     (\<forall>y v. yearToModelPeriod mt3 y = Some v \<longrightarrow>
          yearToModelPeriod mt y = Some v \<or> (0 \<le> v \<and> v < maxPeriod (with_counts mt)))"

text \<open>The object \<open>mt'\<close> that lines 258--271 make of \<open>mt3\<close>.\<close>

definition aligned :: "Modeltime \<Rightarrow> Modeltime \<Rightarrow> bool" where
  "aligned mt3 mt' \<longleftrightarrow>
     mt' = mt3\<lparr>dataOffset := dataOffset mt',
               dataPeriodToModelPeriod := dataPeriodToModelPeriod mt',
               yearToModelPeriod := yearToModelPeriod mt'\<rparr> \<and>
     data_aligned (periodToTimeStep mt3) (startYear mt3) (dataTimeStep mt3)
       (maxDataPeriod mt3 = maxPeriod mt3) (nat (maxDataPeriod mt3))
       (yearToModelPeriod mt3) (yearToModelPeriod mt') (dataOffset mt')
       (dataPeriodToModelPeriod mt')"

subsection \<open>Concrete configurations\<close>

text \<open>Scenario A of the specification.\<close>

definition scenarioA :: Modeltime where
  "scenarioA = configure 1990 2005 2035 2095 5 5 10 2005 5"

text \<open>Scenario B of the specification fixes \<open>startYear = 2000\<close>, \<open>interYear1 = 2007\<close> and
  \<open>timeStep1 = 5\<close>; the other scalars are chosen here.\<close>

definition scenarioB :: Modeltime where
  "scenarioB = configure 2000 2007 2017 2037 5 5 10 2005 5"

text \<open>A data grid finer than the model grid: every step is 2 years, the data step is 1.\<close>

definition fine_data :: Modeltime where
  "fine_data = configure 2000 2002 2004 2006 2 2 2 2006 1"

text \<open>A data grid that runs past \<open>endYear\<close>.\<close>

definition long_data :: Modeltime where
  "long_data = configure 2000 2002 2004 2006 2 2 2 2010 2"

text \<open>A data grid that is the model grid: every step is 5 years.\<close>

definition even_grid :: Modeltime where
  "even_grid = configure 2000 2010 2020 2030 5 5 5 2030 5"

text \<open>One step length everywhere and \<open>dataEndYear = endYear\<close>, but an uneven first era.\<close>

definition uneven_uniform :: Modeltime where
  "uneven_uniform = configure 2000 2007 2017 2027 5 5 5 2027 5"

text \<open>A data grid that ends well before the start year.\<close>

definition early_data :: Modeltime where
  "early_data = configure 2000 2010 2020 2030 5 5 5 1980 5"

text \<open>The object after \<^verbatim>\<open>set\<close> on an empty log, if \<^verbatim>\<open>set\<close> returns.\<close>

definition finalize :: "Modeltime \<Rightarrow> Modeltime option" where
  "finalize mt = (case set_Modeltime mt [] of Inl e \<Rightarrow> None | Inr (mt', lg) \<Rightarrow> Some mt')"

text \<open>The line that \<^verbatim>\<open>getyr_to_per\<close> logs for a year it does not find.\<close>

definition invalid_year :: "int \<Rightarrow> WarningLevel \<times> log_item list" where
  "invalid_year year =
     (ERROR, [Text ''Invalid year: '', Number year,
              Text '' passed to Modeltime::getyr_to_per. ''])"

subsection \<open>Arithmetic of valid configurations\<close>

lemma sdiv_pos: "0 \<le> a \<Longrightarrow> 0 < b \<Longrightarrow> (a::int) sdiv b = a div b"
  by (simp add: signed_divide_int_def sgn_if)

lemma smod_pos: "0 \<le> a \<Longrightarrow> 0 < b \<Longrightarrow> (a::int) smod b = a mod b"
  by (simp add: signed_modulo_int_def sgn_if)

lemma rems_valid:
  assumes "valid_config mt"
  shows "rem1 mt = (interYear1 mt - startYear mt) mod timeStep1 mt"
    and "rem2 mt = (interYear2 mt - interYear1 mt) mod timeStep2 mt"
    and "rem3 mt = (endYear mt - interYear2 mt) mod timeStep3 mt"
    and "0 \<le> rem1 mt" and "0 \<le> rem2 mt" and "0 \<le> rem3 mt"
  using assms by (simp_all add: valid_config_def rem1_def rem2_def rem3_def smod_pos)

lemma counts_valid:
  assumes "valid_config mt"
  shows "numberOfPeriods1 (with_counts mt) = (interYear1 mt - startYear mt) div timeStep1 mt + 1"
    and "numberOfPeriods2 (with_counts mt) = (interYear2 mt - interYear1 mt) div timeStep2 mt"
    and "numberOfPeriods3 (with_counts mt) = (endYear mt - interYear2 mt) div timeStep3 mt"
    and "maxDataPeriod (with_counts mt) = (dataEndYear mt - startYear mt) div dataTimeStep mt + 1"
  using assms by (simp_all add: valid_config_def with_counts_def sdiv_pos)

lemma counts_a:
  shows "numberOfPeriods1a (with_counts mt)
           = numberOfPeriods1 (with_counts mt) + (if rem1 mt \<noteq> 0 then 1 else 0)"
    and "numberOfPeriods2a (with_counts mt)
           = numberOfPeriods2 (with_counts mt) + (if rem2 mt \<noteq> 0 then 1 else 0)"
    and "numberOfPeriods3a (with_counts mt)
           = numberOfPeriods3 (with_counts mt) + (if rem3 mt \<noteq> 0 then 1 else 0)"
    and "maxPeriod (with_counts mt)
           = numberOfPeriods1a (with_counts mt) + numberOfPeriods2a (with_counts mt)
             + numberOfPeriods3a (with_counts mt)"
  by (simp_all add: with_counts_def)

lemma counts_config:
  shows "startYear (with_counts mt) = startYear mt"
    and "interYear1 (with_counts mt) = interYear1 mt"
    and "interYear2 (with_counts mt) = interYear2 mt"
    and "endYear (with_counts mt) = endYear mt"
    and "dataEndYear (with_counts mt) = dataEndYear mt"
    and "dataTimeStep (with_counts mt) = dataTimeStep mt"
    and "timeStep1 (with_counts mt) = timeStep1 mt"
    and "timeStep2 (with_counts mt) = timeStep2 mt"
    and "timeStep3 (with_counts mt) = timeStep3 mt"
    and "periodToTimeStep (with_counts mt) = periodToTimeStep mt"
    and "dataOffset (with_counts mt) = dataOffset mt"
    and "modelPeriodToYear (with_counts mt) = modelPeriodToYear mt"
    and "dataPeriodToModelPeriod (with_counts mt) = dataPeriodToModelPeriod mt"
    and "yearToModelPeriod (with_counts mt) = yearToModelPeriod mt"
  by (simp_all add: with_counts_def)

lemma counts_nonneg:
  assumes "valid_config mt"
  shows "1 \<le> numberOfPeriods1 (with_counts mt)"
    and "0 \<le> numberOfPeriods2 (with_counts mt)"
    and "0 \<le> numberOfPeriods3 (with_counts mt)"
    and "1 \<le> maxDataPeriod (with_counts mt)"
  using assms
  by (simp_all add: counts_valid valid_config_def pos_imp_zdiv_nonneg_iff)

lemma set_counts_eq:
  assumes "timeStep1 mt \<noteq> 0" "timeStep2 mt \<noteq> 0" "timeStep3 mt \<noteq> 0" "dataTimeStep mt \<noteq> 0"
  shows "set_counts mt lg = Inr (with_counts mt, warnings mt lg, rem1 mt, rem2 mt, rem3 mt)"
  using assms
  by (simp add: set_counts_def with_counts_def warnings_def rem1_def rem2_def rem3_def
      warning1_def warning2_def warning3_def divide_def modulo_def and_then_def log_line_def
      Let_def)

subsection \<open>The time steps\<close>

lemma steps_of_eq:
  assumes "valid_config mt"
  shows "steps_of mt =
     replicate (nat (numberOfPeriods1 (with_counts mt))) (timeStep1 mt) @
     (if rem1 mt \<noteq> 0 then [rem1 mt] else []) @
     replicate (nat (numberOfPeriods2 (with_counts mt))) (timeStep2 mt) @
     (if rem2 mt \<noteq> 0 then [rem2 mt] else []) @
     replicate (nat (numberOfPeriods3 (with_counts mt))) (timeStep3 mt) @
     (if rem3 mt \<noteq> 0 then [rem3 mt] else [])"
  by (simp add: steps_of_def expected_steps_def counts_a counts_config)

lemma steps_of_length:
  assumes "valid_config mt"
  shows "length (steps_of mt) = nat (maxPeriod (with_counts mt))"
  using counts_nonneg [OF assms]
  by (simp add: steps_of_eq [OF assms] counts_a nat_add_distrib)

lemma steps_of_pos:
  assumes "valid_config mt"
  shows "\<forall>x \<in> set (steps_of mt). 1 \<le> x"
  using assms rems_valid(4-6) [OF assms]
  by (auto simp: steps_of_eq [OF assms] valid_config_def)

lemma steps_of_hd:
  assumes "valid_config mt"
  shows "steps_of mt = timeStep1 mt # tl (steps_of mt)"
proof -
  obtain a where "nat (numberOfPeriods1 (with_counts mt)) = Suc a"
    using counts_nonneg(1) [OF assms] by (metis Suc_nat_eq_nat_zadd1 add.commute diff_ge_0_iff_ge diff_add_cancel)
  then show ?thesis
    by (simp add: steps_of_eq [OF assms])
qed

lemma steps_of_sum:
  assumes "valid_config mt"
  shows "sum_list (steps_of mt) = endYear mt - startYear mt + timeStep1 mt"
proof -
  have r: "(if rem1 mt \<noteq> 0 then [rem1 mt] else []) = L \<Longrightarrow> sum_list L = rem1 mt"
          "(if rem2 mt \<noteq> 0 then [rem2 mt] else []) = L \<Longrightarrow> sum_list L = rem2 mt"
          "(if rem3 mt \<noteq> 0 then [rem3 mt] else []) = L \<Longrightarrow> sum_list L = rem3 mt" for L
    by (auto split: if_splits)
  have n: "int (nat (numberOfPeriods1 (with_counts mt))) = numberOfPeriods1 (with_counts mt)"
          "int (nat (numberOfPeriods2 (with_counts mt))) = numberOfPeriods2 (with_counts mt)"
          "int (nat (numberOfPeriods3 (with_counts mt))) = numberOfPeriods3 (with_counts mt)"
    using counts_nonneg [OF assms] by simp_all
  have "sum_list (steps_of mt) =
          numberOfPeriods1 (with_counts mt) * timeStep1 mt + rem1 mt
          + (numberOfPeriods2 (with_counts mt) * timeStep2 mt + rem2 mt)
          + (numberOfPeriods3 (with_counts mt) * timeStep3 mt + rem3 mt)"
    using counts_nonneg [OF assms]
    by (simp add: steps_of_eq [OF assms] sum_list_replicate r [OF refl])
  also have "\<dots> = endYear mt - startYear mt + timeStep1 mt"
    by (simp add: counts_valid [OF assms] rems_valid(1-3) [OF assms] algebra_simps)
  finally show ?thesis .
qed

subsection \<open>The fill loops\<close>

lemma fill_done: "hi \<le> i \<Longrightarrow> fill i hi x v = Inr v"
  by (simp add: fill.simps)

lemma fill_prefix:
  "nat (hi - i) = k \<Longrightarrow> 0 \<le> i \<Longrightarrow> length P = nat i \<Longrightarrow> k \<le> length S \<Longrightarrow>
   fill i hi x (P @ S) = Inr (P @ replicate k x @ drop k S)"
proof (induction k arbitrary: i P S)
  case 0
  then show ?case by (simp add: fill.simps)
next
  case (Suc k)
  from Suc.prems obtain s S' where S: "S = s # S'" by (cases S) auto
  have lt: "i < hi" using Suc.prems by linarith
  have upd: "vec_assign (P @ S) i x = Inr ((P @ [x]) @ S')"
    using Suc.prems by (simp add: vec_assign_def S list_update_append)
  have "fill (i + 1) hi x ((P @ [x]) @ S') = Inr ((P @ [x]) @ replicate k x @ drop k S')"
    using Suc.prems by (intro Suc.IH) (auto simp: S nat_add_distrib)
  then show ?case
    using lt upd by (subst fill.simps) (simp add: S replicate_app_Cons_same)
qed

lemma fill_nat:
  assumes "length P = p" "k \<le> length S"
  shows "fill (int p) (int p + int k) x (P @ S) = Inr ((P @ replicate k x) @ drop k S)"
  using fill_prefix [of "int p + int k" "int p" k P S x] assms by simp

lemma vec_resize_length: "0 \<le> n \<Longrightarrow> \<exists>v'. vec_resize v n = Inr v' \<and> length v' = nat n"
  by (auto simp: vec_resize_def)

lemma set_timesteps_ok:
  assumes n1: "0 \<le> numberOfPeriods1 mt" "numberOfPeriods1 mt \<le> numberOfPeriods1a mt"
    and n2: "0 \<le> numberOfPeriods2 mt" "numberOfPeriods2 mt \<le> numberOfPeriods2a mt"
    and n3: "0 \<le> numberOfPeriods3 mt" "numberOfPeriods3 mt \<le> numberOfPeriods3a mt"
    and mp: "maxPeriod mt = numberOfPeriods1a mt + numberOfPeriods2a mt + numberOfPeriods3a mt"
  shows "set_timesteps mt r1 r2 r3 = Inr (mt\<lparr>periodToTimeStep := expected_steps mt r1 r2 r3\<rparr>)"
proof -
  obtain a a' where a: "numberOfPeriods1 mt = int a" "numberOfPeriods1a mt = int a + int a'"
    using n1 by (metis zero_le_imp_eq_int add_diff_cancel_left' diff_ge_0_iff_ge add.commute diff_add_cancel)
  obtain b b' where b: "numberOfPeriods2 mt = int b" "numberOfPeriods2a mt = int b + int b'"
    using n2 by (metis zero_le_imp_eq_int add_diff_cancel_left' diff_ge_0_iff_ge add.commute diff_add_cancel)
  obtain c c' where c: "numberOfPeriods3 mt = int c" "numberOfPeriods3a mt = int c + int c'"
    using n3 by (metis zero_le_imp_eq_int add_diff_cancel_left' diff_ge_0_iff_ge add.commute diff_add_cancel)
  obtain v0 where v0: "vec_resize (periodToTimeStep mt) (maxPeriod mt) = Inr v0"
    and "length v0 = nat (maxPeriod mt)"
    using vec_resize_length [of "maxPeriod mt" "periodToTimeStep mt"] mp a b c by auto
  then have len0: "length v0 = a + a' + b + b' + c + c'"
    using mp a b c by (simp add: nat_add_distrib)
  let ?P1 = "replicate a (timeStep1 mt)"
  let ?P2 = "?P1 @ replicate a' r1"
  let ?P3 = "?P2 @ replicate b (timeStep2 mt)"
  let ?P4 = "?P3 @ replicate b' r2"
  let ?P5 = "?P4 @ replicate c (timeStep3 mt)"
  let ?P6 = "?P5 @ replicate c' r3"
  let ?S1 = "drop a v0"
  let ?S2 = "drop a' ?S1"
  let ?S3 = "drop b ?S2"
  let ?S4 = "drop b' ?S3"
  let ?S5 = "drop c ?S4"
  let ?S6 = "drop c' ?S5"
  have f1: "fill 0 (int a) (timeStep1 mt) v0 = Inr (?P1 @ ?S1)"
    using fill_nat [of "[]" 0 a v0 "timeStep1 mt"] len0 by simp
  have f2: "fill (int a) (int a + int a') r1 (?P1 @ ?S1) = Inr (?P2 @ ?S2)"
    using fill_nat [of ?P1 a a' ?S1 r1] len0 by simp
  have f3: "fill (int a + int a') (int a + int a' + int b) (timeStep2 mt) (?P2 @ ?S2)
              = Inr (?P3 @ ?S3)"
    using fill_nat [of ?P2 "a + a'" b ?S2 "timeStep2 mt"] len0 by simp
  have f4: "fill (int a + int a' + int b) (int a + int a' + (int b + int b')) r2 (?P3 @ ?S3)
              = Inr (?P4 @ ?S4)"
    using fill_nat [of ?P3 "a + a' + b" b' ?S3 r2] len0 by (simp add: add.assoc)
  have f5: "fill (int a + int a' + (int b + int b')) (int a + int a' + (int b + int b') + int c)
              (timeStep3 mt) (?P4 @ ?S4) = Inr (?P5 @ ?S5)"
    using fill_nat [of ?P4 "a + a' + b + b'" c ?S4 "timeStep3 mt"] len0 by (simp add: add.assoc)
  have f6: "fill (int a + int a' + (int b + int b') + int c)
              (int a + int a' + (int b + int b') + (int c + int c')) r3 (?P5 @ ?S5)
              = Inr (?P6 @ ?S6)"
    using fill_nat [of ?P5 "a + a' + b + b' + c" c' ?S5 r3] len0 by (simp add: add.assoc)
  have S6: "?S6 = []"
    using len0 by simp
  have ex: "expected_steps mt r1 r2 r3 = ?P6"
    by (simp add: expected_steps_def a b c)
  show ?thesis
    unfolding set_timesteps_def ex
    by (simp only: a b c v0 f1 f2 f3 f4 f5 f6 and_then_def sum.case S6 append_Nil2)
qed

subsection \<open>The year walk\<close>

lemma between_years_eq:
  "between_years y step b i ym = (\<lambda>x. if b + y \<le> x \<and> x < b + step then Some i else ym x)"
proof (induction y step b i ym rule: between_years.induct)
  case (1 y step b i ym)
  show ?case
  proof (cases "y < step")
    case True
    then show ?thesis
      by (subst between_years.simps) (auto simp: 1 fun_eq_iff)
  next
    case False
    then show ?thesis
      by (subst between_years.simps) (auto simp: fun_eq_iff)
  qed
qed

text \<open>One iteration's effect on the map.\<close>

lemma period_years_eq:
  "1 \<le> step \<Longrightarrow>
   (if step > 1 then between_years 1 step b i (ym(b + step \<mapsto> i)) else ym(b + step \<mapsto> i))
     = (\<lambda>x. if b < x \<and> x \<le> b + step then Some i else ym x)"
  by (auto simp: between_years_eq fun_eq_iff)

lemma year_loop_spec:
  assumes "n - i = d" "1 \<le> i" "i \<le> n" "length steps = n" "length yrs = n"
    and "\<forall>k. i \<le> k \<and> k < n \<longrightarrow> 1 \<le> steps ! k"
    and "yrs ! (i - 1) = b"
  shows "\<exists>ym' yrs'. year_loop steps (int n) (int i) b ym yrs = Inr (ym', yrs')
           \<and> length yrs' = n
           \<and> (\<forall>k<i. yrs' ! k = yrs ! k)
           \<and> (\<forall>k. i \<le> k \<and> k < n \<longrightarrow> yrs' ! k = yrs' ! (k - 1) + steps ! k)
           \<and> (\<forall>k y. i \<le> k \<and> k < n \<and> yrs' ! (k - 1) < y \<and> y \<le> yrs' ! k
                  \<longrightarrow> ym' y = Some (int k))
           \<and> (\<forall>y. y \<le> b \<or> yrs' ! (n - 1) < y \<longrightarrow> ym' y = ym y)
           \<and> b \<le> yrs' ! (n - 1)
           \<and> (\<forall>y. b < y \<and> y \<le> yrs' ! (n - 1)
                  \<longrightarrow> (\<exists>k. i \<le> k \<and> k < n \<and> yrs' ! (k - 1) < y \<and> y \<le> yrs' ! k))
           \<and> (\<forall>y v. ym' y = Some v \<longrightarrow> ym y = Some v \<or> (int i \<le> v \<and> v < int n))"
  using assms
proof (induction d arbitrary: i b ym yrs)
  case 0
  then have "i = n" by simp
  with 0 show ?case
    by (subst year_loop.simps) auto
next
  case (Suc d)
  then have lt: "i < n" by simp
  let ?step = "steps ! i"
  let ?ym1 = "\<lambda>x. if b < x \<and> x \<le> b + ?step then Some (int i) else ym x"
  let ?yrs1 = "yrs[i := b + ?step]"
  have step1: "1 \<le> ?step" using Suc.prems lt by simp
  have unfold: "year_loop steps (int n) (int i) b ym yrs
                  = year_loop steps (int n) (int (Suc i)) (b + ?step) ?ym1 ?yrs1"
    using lt Suc.prems(4,5) period_years_eq [OF step1, of b "int i" ym]
    by (subst year_loop.simps) (simp add: vec_at_def vec_assign_def add.commute)
  have "\<exists>ym' yrs'. year_loop steps (int n) (int (Suc i)) (b + ?step) ?ym1 ?yrs1 = Inr (ym', yrs')
           \<and> length yrs' = n
           \<and> (\<forall>k<Suc i. yrs' ! k = ?yrs1 ! k)
           \<and> (\<forall>k. Suc i \<le> k \<and> k < n \<longrightarrow> yrs' ! k = yrs' ! (k - 1) + steps ! k)
           \<and> (\<forall>k y. Suc i \<le> k \<and> k < n \<and> yrs' ! (k - 1) < y \<and> y \<le> yrs' ! k
                  \<longrightarrow> ym' y = Some (int k))
           \<and> (\<forall>y. y \<le> b + ?step \<or> yrs' ! (n - 1) < y \<longrightarrow> ym' y = ?ym1 y)
           \<and> b + ?step \<le> yrs' ! (n - 1)
           \<and> (\<forall>y. b + ?step < y \<and> y \<le> yrs' ! (n - 1)
                  \<longrightarrow> (\<exists>k. Suc i \<le> k \<and> k < n \<and> yrs' ! (k - 1) < y \<and> y \<le> yrs' ! k))
           \<and> (\<forall>y v. ym' y = Some v \<longrightarrow> ?ym1 y = Some v \<or> (int (Suc i) \<le> v \<and> v < int n))"
    using Suc.prems lt by (intro Suc.IH) auto
  then obtain ym' yrs' where
    res: "year_loop steps (int n) (int (Suc i)) (b + ?step) ?ym1 ?yrs1 = Inr (ym', yrs')"
    and len: "length yrs' = n"
    and keep: "\<forall>k<Suc i. yrs' ! k = ?yrs1 ! k"
    and rec: "\<forall>k. Suc i \<le> k \<and> k < n \<longrightarrow> yrs' ! k = yrs' ! (k - 1) + steps ! k"
    and per: "\<forall>k y. Suc i \<le> k \<and> k < n \<and> yrs' ! (k - 1) < y \<and> y \<le> yrs' ! k
                  \<longrightarrow> ym' y = Some (int k)"
    and out: "\<forall>y. y \<le> b + ?step \<or> yrs' ! (n - 1) < y \<longrightarrow> ym' y = ?ym1 y"
    and last: "b + ?step \<le> yrs' ! (n - 1)"
    and cov: "\<forall>y. b + ?step < y \<and> y \<le> yrs' ! (n - 1)
                  \<longrightarrow> (\<exists>k. Suc i \<le> k \<and> k < n \<and> yrs' ! (k - 1) < y \<and> y \<le> yrs' ! k)"
    and ran: "\<forall>y v. ym' y = Some v \<longrightarrow> ?ym1 y = Some v \<or> (int (Suc i) \<le> v \<and> v < int n)"
    by blast
  have at_i: "yrs' ! i = b + ?step"
    using keep lt Suc.prems(5) by simp
  have before: "\<forall>k<i. yrs' ! k = yrs ! k"
    using keep by simp
  have prev: "yrs' ! (i - 1) = b"
    using before Suc.prems(2,7) by simp
  have rec': "\<forall>k. i \<le> k \<and> k < n \<longrightarrow> yrs' ! k = yrs' ! (k - 1) + steps ! k"
  proof (intro allI impI)
    fix k assume "i \<le> k \<and> k < n"
    then consider "k = i" | "Suc i \<le> k \<and> k < n" by linarith
    then show "yrs' ! k = yrs' ! (k - 1) + steps ! k"
      using at_i prev rec by cases auto
  qed
  have per': "\<forall>k y. i \<le> k \<and> k < n \<and> yrs' ! (k - 1) < y \<and> y \<le> yrs' ! k
                  \<longrightarrow> ym' y = Some (int k)"
  proof (intro allI impI)
    fix k y assume h: "i \<le> k \<and> k < n \<and> yrs' ! (k - 1) < y \<and> y \<le> yrs' ! k"
    then consider "k = i" | "Suc i \<le> k \<and> k < n" by linarith
    then show "ym' y = Some (int k)"
    proof cases
      case 1
      then have "b < y \<and> y \<le> b + ?step" using h at_i prev by simp
      then show ?thesis using out 1 by simp
    next
      case 2
      then show ?thesis using per h by blast
    qed
  qed
  have out': "\<forall>y. y \<le> b \<or> yrs' ! (n - 1) < y \<longrightarrow> ym' y = ym y"
    using out last step1 by auto
  have last': "b \<le> yrs' ! (n - 1)"
    using last step1 by linarith
  have cov': "\<forall>y. b < y \<and> y \<le> yrs' ! (n - 1)
                  \<longrightarrow> (\<exists>k. i \<le> k \<and> k < n \<and> yrs' ! (k - 1) < y \<and> y \<le> yrs' ! k)"
  proof (intro allI impI)
    fix y assume h: "b < y \<and> y \<le> yrs' ! (n - 1)"
    show "\<exists>k. i \<le> k \<and> k < n \<and> yrs' ! (k - 1) < y \<and> y \<le> yrs' ! k"
    proof (cases "y \<le> b + ?step")
      case True
      then have "i \<le> i \<and> i < n \<and> yrs' ! (i - 1) < y \<and> y \<le> yrs' ! i"
        using h lt at_i prev by simp
      then show ?thesis by blast
    next
      case False
      then obtain k where "Suc i \<le> k \<and> k < n \<and> yrs' ! (k - 1) < y \<and> y \<le> yrs' ! k"
        using cov h by (meson not_le)
      then have "i \<le> k \<and> k < n \<and> yrs' ! (k - 1) < y \<and> y \<le> yrs' ! k"
        by simp
      then show ?thesis by blast
    qed
  qed
  have ran': "\<forall>y v. ym' y = Some v \<longrightarrow> ym y = Some v \<or> (int i \<le> v \<and> v < int n)"
  proof (intro allI impI)
    fix y v assume "ym' y = Some v"
    then have "?ym1 y = Some v \<or> (int (Suc i) \<le> v \<and> v < int n)"
      using ran by blast
    then show "ym y = Some v \<or> (int i \<le> v \<and> v < int n)"
      using lt by (auto split: if_splits)
  qed
  show ?case
    unfolding unfold res using len before rec' per' out' last' cov' ran' by blast
qed

lemma vec_resize_ok:
  "0 \<le> n \<Longrightarrow> vec_resize v n = Inr (take (nat n) v @ replicate (nat n - length v) 0)"
  by (simp add: vec_resize_def)

lemma set_years_spec:
  assumes n: "1 \<le> maxPeriod mt"
    and len: "length (periodToTimeStep mt) = nat (maxPeriod mt)"
    and pos: "\<forall>x \<in> set (periodToTimeStep mt). 1 \<le> x"
  shows "\<exists>ym yrs. set_years mt = Inr (mt\<lparr>yearToModelPeriod := ym, modelPeriodToYear := yrs\<rparr>)
           \<and> years_built (periodToTimeStep mt) (startYear mt) yrs
           \<and> years_mapped yrs (yearToModelPeriod mt) ym
           \<and> (\<forall>y v. ym y = Some v
                 \<longrightarrow> yearToModelPeriod mt y = Some v \<or> (0 \<le> v \<and> v < maxPeriod mt))"
proof -
  let ?n = "nat (maxPeriod mt)"
  let ?steps = "periodToTimeStep mt"
  let ?start = "startYear mt"
  let ?ym0 = "(yearToModelPeriod mt)(?start \<mapsto> 0)"
  let ?yrs0 = "take ?n (modelPeriodToYear mt) @ replicate (?n - length (modelPeriodToYear mt)) 0"
  let ?yrs1 = "?yrs0[0 := ?start]"
  have n1: "1 \<le> ?n" "int ?n = maxPeriod mt" using n by simp_all
  have len0: "length ?yrs0 = ?n" by simp
  have rs: "vec_resize (modelPeriodToYear mt) (maxPeriod mt) = Inr ?yrs0"
    using n by (simp add: vec_resize_ok)
  have as: "vec_assign ?yrs0 0 ?start = Inr ?yrs1"
    using n1 len0 by (simp add: vec_assign_def del: length_append length_take length_replicate)
  have "\<exists>ym' yrs'. year_loop ?steps (int ?n) (int 1) ?start ?ym0 ?yrs1 = Inr (ym', yrs')
           \<and> length yrs' = ?n
           \<and> (\<forall>k<1. yrs' ! k = ?yrs1 ! k)
           \<and> (\<forall>k. 1 \<le> k \<and> k < ?n \<longrightarrow> yrs' ! k = yrs' ! (k - 1) + ?steps ! k)
           \<and> (\<forall>k y. 1 \<le> k \<and> k < ?n \<and> yrs' ! (k - 1) < y \<and> y \<le> yrs' ! k
                  \<longrightarrow> ym' y = Some (int k))
           \<and> (\<forall>y. y \<le> ?start \<or> yrs' ! (?n - 1) < y \<longrightarrow> ym' y = ?ym0 y)
           \<and> ?start \<le> yrs' ! (?n - 1)
           \<and> (\<forall>y. ?start < y \<and> y \<le> yrs' ! (?n - 1)
                  \<longrightarrow> (\<exists>k. 1 \<le> k \<and> k < ?n \<and> yrs' ! (k - 1) < y \<and> y \<le> yrs' ! k))
           \<and> (\<forall>y v. ym' y = Some v \<longrightarrow> ?ym0 y = Some v \<or> (int 1 \<le> v \<and> v < int ?n))"
  proof (rule year_loop_spec [OF refl])
    show "1 \<le> (1::nat)" by simp
    show "1 \<le> ?n" by (rule n1)
    show "length ?steps = ?n" by (rule len)
    show "length ?yrs1 = ?n" by simp
    show "\<forall>k. 1 \<le> k \<and> k < ?n \<longrightarrow> 1 \<le> ?steps ! k"
      using pos len by (metis nth_mem)
    show "?yrs1 ! (1 - 1) = ?start"
      using n1 by (simp del: length_append length_take length_replicate add: len0 nth_list_update)
  qed
  then obtain ym' yrs' where
    res: "year_loop ?steps (maxPeriod mt) 1 ?start ?ym0 ?yrs1 = Inr (ym', yrs')"
    and len': "length yrs' = ?n"
    and keep: "\<forall>k<1. yrs' ! k = ?yrs1 ! k"
    and rec: "\<forall>k. 1 \<le> k \<and> k < ?n \<longrightarrow> yrs' ! k = yrs' ! (k - 1) + ?steps ! k"
    and per: "\<forall>k y. 1 \<le> k \<and> k < ?n \<and> yrs' ! (k - 1) < y \<and> y \<le> yrs' ! k
                  \<longrightarrow> ym' y = Some (int k)"
    and out: "\<forall>y. y \<le> ?start \<or> yrs' ! (?n - 1) < y \<longrightarrow> ym' y = ?ym0 y"
    and last: "?start \<le> yrs' ! (?n - 1)"
    and cov: "\<forall>y. ?start < y \<and> y \<le> yrs' ! (?n - 1)
                  \<longrightarrow> (\<exists>k. 1 \<le> k \<and> k < ?n \<and> yrs' ! (k - 1) < y \<and> y \<le> yrs' ! k)"
    and ran: "\<forall>y v. ym' y = Some v \<longrightarrow> ?ym0 y = Some v \<or> (int 1 \<le> v \<and> v < int ?n)"
    using n1 by auto
  have ne: "yrs' \<noteq> []" using len' n1 by auto
  have first: "yrs' ! 0 = ?start"
    using keep n1 len0 by (simp del: length_append length_take length_replicate)
  have lastn: "last yrs' = yrs' ! (?n - 1)"
    using ne len' by (simp add: last_conv_nth)
  have built: "years_built ?steps ?start yrs'"
    unfolding years_built_def using len len' ne first rec by simp
  have mapped: "years_mapped yrs' (yearToModelPeriod mt) ym'"
    unfolding years_mapped_def lastn first len'
    using per out last cov by auto
  have range: "\<forall>y v. ym' y = Some v
                 \<longrightarrow> yearToModelPeriod mt y = Some v \<or> (0 \<le> v \<and> v < maxPeriod mt)"
  proof (intro allI impI)
    fix y v assume "ym' y = Some v"
    then have "?ym0 y = Some v \<or> (int 1 \<le> v \<and> v < int ?n)" using ran by blast
    then show "yearToModelPeriod mt y = Some v \<or> (0 \<le> v \<and> v < maxPeriod mt)"
      using n by (auto split: if_splits)
  qed
  have "set_years mt = Inr (mt\<lparr>yearToModelPeriod := ym', modelPeriodToYear := yrs'\<rparr>)"
    unfolding set_years_def Let_def
    by (simp only: rs as res and_then_def sum.case prod.case)
  then show ?thesis
    using built mapped range by blast
qed

subsection \<open>The data alignment\<close>

lemma data_loop_spec:
  assumes "n - i = d" "i \<le> n" "length off = n" "length d2m = n"
    and "steps \<noteq> []"
    and "\<forall>y v. ym y = Some v \<longrightarrow> 0 \<le> v \<and> nat v < length steps"
    and "\<forall>k < length steps. steps ! k \<noteq> 0"
  shows "\<exists>ymF off' d2m'.
           data_loop steps start dts same (int n) (int i) ym off d2m = Inr (ymF, off', d2m')
           \<and> length off' = n \<and> length d2m' = n
           \<and> (\<forall>k<i. off' ! k = off ! k \<and> d2m' ! k = d2m ! k)
           \<and> (\<forall>k. i \<le> k \<and> k < n \<longrightarrow>
                  d2m' ! k = lookup0 ym (start + int k * dts)
                  \<and> off' ! k = (if same then 0 else dts sdiv steps ! nat (d2m' ! k)))
           \<and> (\<forall>y. ymF y = (if ym y = None \<and> (\<exists>k. i \<le> k \<and> k < n \<and> y = start + int k * dts)
                            then Some 0 else ym y))"
  using assms
proof (induction d arbitrary: i ym off d2m)
  case 0
  then have "i = n" by simp
  with 0 show ?case
    by (subst data_loop.simps) auto
next
  case (Suc d)
  then have lt: "i < n" by simp
  let ?key = "start + int i * dts"
  let ?m = "lookup0 ym ?key"
  let ?q = "if same then 0 else dts sdiv steps ! nat ?m"
  have "map_subscript ym ?key = (?m, snd (map_subscript ym ?key))"
    and "\<forall>y. snd (map_subscript ym ?key) y
           = (if y = ?key \<and> ym ?key = None then Some 0 else ym y)"
    by (auto simp: map_subscript_def lookup0_def split: option.splits)
  then obtain ym1 where sub: "map_subscript ym ?key = (?m, ym1)"
    and ym1: "\<forall>y. ym1 y = (if y = ?key \<and> ym ?key = None then Some 0 else ym y)"
    by blast
  obtain off1 d2m1 where off1: "off1 = off[i := ?q]" and d2m1: "d2m1 = d2m[i := ?m]"
    by simp
  have m_ok: "0 \<le> ?m \<and> nat ?m < length steps"
    using Suc.prems(5,6) by (auto simp: lookup0_def split: option.splits)
  then have nz: "steps ! nat ?m \<noteq> 0"
    using Suc.prems(7) by blast
  have m_lt: "?m < int (length steps)"
    using m_ok by linarith
  have offset: "(if same then vec_assign off (int i) 0
                 else and_then (vec_at steps ?m) (\<lambda>s.
                      and_then (divide dts s) (\<lambda>q. vec_assign off (int i) q))) = Inr off1"
    using lt Suc.prems(3) m_ok m_lt nz
    by (simp add: vec_assign_def vec_at_def divide_def and_then_def off1)
  have d2m: "vec_assign d2m (int i) ?m = Inr d2m1"
    using lt Suc.prems(4) by (simp add: vec_assign_def d2m1)
  have unfold: "data_loop steps start dts same (int n) (int i) ym off d2m
                  = data_loop steps start dts same (int n) (int (Suc i)) ym1 off1 d2m1"
    using lt by (subst data_loop.simps) (simp add: sub offset d2m add.commute)
  have ym1_ok: "\<forall>y v. ym1 y = Some v \<longrightarrow> 0 \<le> v \<and> nat v < length steps"
    using Suc.prems(5,6) ym1 by (auto split: if_splits)
  have len1: "length off1 = n" "length d2m1 = n"
    using Suc.prems(3,4) off1 d2m1 by simp_all
  have "\<exists>ymF off' d2m'.
           data_loop steps start dts same (int n) (int (Suc i)) ym1 off1 d2m1
             = Inr (ymF, off', d2m')
           \<and> length off' = n \<and> length d2m' = n
           \<and> (\<forall>k<Suc i. off' ! k = off1 ! k \<and> d2m' ! k = d2m1 ! k)
           \<and> (\<forall>k. Suc i \<le> k \<and> k < n \<longrightarrow>
                  d2m' ! k = lookup0 ym1 (start + int k * dts)
                  \<and> off' ! k = (if same then 0 else dts sdiv steps ! nat (d2m' ! k)))
           \<and> (\<forall>y. ymF y = (if ym1 y = None \<and> (\<exists>k. Suc i \<le> k \<and> k < n \<and> y = start + int k * dts)
                            then Some 0 else ym1 y))"
    using Suc.prems(1,5,7) lt ym1_ok len1 by (intro Suc.IH) auto
  then obtain ymF off' d2m' where
    res: "data_loop steps start dts same (int n) (int (Suc i)) ym1 off1 d2m1
             = Inr (ymF, off', d2m')"
    and len: "length off' = n" "length d2m' = n"
    and keep: "\<forall>k<Suc i. off' ! k = off1 ! k \<and> d2m' ! k = d2m1 ! k"
    and later: "\<forall>k. Suc i \<le> k \<and> k < n \<longrightarrow>
                  d2m' ! k = lookup0 ym1 (start + int k * dts)
                  \<and> off' ! k = (if same then 0 else dts sdiv steps ! nat (d2m' ! k))"
    and ymF: "\<forall>y. ymF y = (if ym1 y = None \<and> (\<exists>k. Suc i \<le> k \<and> k < n \<and> y = start + int k * dts)
                            then Some 0 else ym1 y)"
    by blast
  have look1: "lookup0 ym1 y = lookup0 ym y" for y
    using ym1 by (auto simp: lookup0_def split: option.splits)
  have at_i: "d2m' ! i = ?m" "off' ! i = ?q"
    using keep lt Suc.prems(3,4) off1 d2m1 by simp_all
  have before: "\<forall>k<i. off' ! k = off ! k \<and> d2m' ! k = d2m ! k"
    using keep off1 d2m1 by simp
  have from_i: "\<forall>k. i \<le> k \<and> k < n \<longrightarrow>
                  d2m' ! k = lookup0 ym (start + int k * dts)
                  \<and> off' ! k = (if same then 0 else dts sdiv steps ! nat (d2m' ! k))"
  proof (intro allI impI)
    fix k assume "i \<le> k \<and> k < n"
    then consider "k = i" | "Suc i \<le> k \<and> k < n" by linarith
    then show "d2m' ! k = lookup0 ym (start + int k * dts)
                  \<and> off' ! k = (if same then 0 else dts sdiv steps ! nat (d2m' ! k))"
    proof cases
      case 1
      then show ?thesis using at_i by simp
    next
      case 2
      then show ?thesis using later look1 by simp
    qed
  qed
  have ymF': "\<forall>y. ymF y = (if ym y = None \<and> (\<exists>k. i \<le> k \<and> k < n \<and> y = start + int k * dts)
                            then Some 0 else ym y)"
  proof
    fix y
    have split: "(\<exists>k. i \<le> k \<and> k < n \<and> y = start + int k * dts)
                   \<longleftrightarrow> y = ?key \<or> (\<exists>k. Suc i \<le> k \<and> k < n \<and> y = start + int k * dts)"
      using lt by (metis Suc_leI le_neq_implies_less le_refl Suc_leD)
    show "ymF y = (if ym y = None \<and> (\<exists>k. i \<le> k \<and> k < n \<and> y = start + int k * dts)
                            then Some 0 else ym y)"
      unfolding split using ymF ym1 by (cases "y = ?key") auto
  qed
  show ?case
    unfolding unfold res using len before from_i ymF' by blast
qed

lemma set_data_spec:
  assumes nd: "0 \<le> maxDataPeriod mt"
    and ne: "periodToTimeStep mt \<noteq> []"
    and ran: "\<forall>y v. yearToModelPeriod mt y = Some v
                 \<longrightarrow> 0 \<le> v \<and> nat v < length (periodToTimeStep mt)"
    and nz: "\<forall>k < length (periodToTimeStep mt). periodToTimeStep mt ! k \<noteq> 0"
  shows "\<exists>ymF off d2m.
           set_data mt = Inr (mt\<lparr>yearToModelPeriod := ymF, dataOffset := off,
                                 dataPeriodToModelPeriod := d2m\<rparr>)
           \<and> data_aligned (periodToTimeStep mt) (startYear mt) (dataTimeStep mt)
                (maxDataPeriod mt = maxPeriod mt) (nat (maxDataPeriod mt))
                (yearToModelPeriod mt) ymF off d2m"
proof -
  let ?n = "nat (maxDataPeriod mt)"
  let ?steps = "periodToTimeStep mt"
  let ?same = "maxDataPeriod mt = maxPeriod mt"
  let ?off0 = "take ?n (dataOffset mt) @ replicate (?n - length (dataOffset mt)) 0"
  let ?d2m0 = "take ?n (dataPeriodToModelPeriod mt)
                 @ replicate (?n - length (dataPeriodToModelPeriod mt)) 0"
  have n: "int ?n = maxDataPeriod mt" using nd by simp
  have rs1: "vec_resize (dataOffset mt) (maxDataPeriod mt) = Inr ?off0"
    using nd by (simp add: vec_resize_ok)
  have rs2: "vec_resize (dataPeriodToModelPeriod mt) (maxDataPeriod mt) = Inr ?d2m0"
    using nd by (simp add: vec_resize_ok)
  have "\<exists>ymF off' d2m'.
           data_loop ?steps (startYear mt) (dataTimeStep mt) ?same (int ?n) (int 0)
             (yearToModelPeriod mt) ?off0 ?d2m0 = Inr (ymF, off', d2m')
           \<and> length off' = ?n \<and> length d2m' = ?n
           \<and> (\<forall>k<0. off' ! k = ?off0 ! k \<and> d2m' ! k = ?d2m0 ! k)
           \<and> (\<forall>k. 0 \<le> k \<and> k < ?n \<longrightarrow>
                  d2m' ! k = lookup0 (yearToModelPeriod mt) (startYear mt + int k * dataTimeStep mt)
                  \<and> off' ! k = (if ?same then 0 else dataTimeStep mt sdiv ?steps ! nat (d2m' ! k)))
           \<and> (\<forall>y. ymF y = (if yearToModelPeriod mt y = None
                                \<and> (\<exists>k. 0 \<le> k \<and> k < ?n \<and> y = startYear mt + int k * dataTimeStep mt)
                            then Some 0 else yearToModelPeriod mt y))"
    using ne ran nz by (intro data_loop_spec [OF refl]) simp_all
  then obtain ymF off' d2m' where
    res: "data_loop ?steps (startYear mt) (dataTimeStep mt) ?same (maxDataPeriod mt) 0
             (yearToModelPeriod mt) ?off0 ?d2m0 = Inr (ymF, off', d2m')"
    and len: "length off' = ?n" "length d2m' = ?n"
    and vals: "\<forall>k. 0 \<le> k \<and> k < ?n \<longrightarrow>
                  d2m' ! k = lookup0 (yearToModelPeriod mt) (startYear mt + int k * dataTimeStep mt)
                  \<and> off' ! k = (if ?same then 0 else dataTimeStep mt sdiv ?steps ! nat (d2m' ! k))"
    and ymF: "\<forall>y. ymF y = (if yearToModelPeriod mt y = None
                                \<and> (\<exists>k. 0 \<le> k \<and> k < ?n \<and> y = startYear mt + int k * dataTimeStep mt)
                            then Some 0 else yearToModelPeriod mt y)"
    using n by auto
  have aligned: "data_aligned ?steps (startYear mt) (dataTimeStep mt) ?same ?n
                   (yearToModelPeriod mt) ymF off' d2m'"
    unfolding data_aligned_def on_data_grid_def
    using len vals ymF by simp
  have "set_data mt = Inr (mt\<lparr>yearToModelPeriod := ymF, dataOffset := off',
                                 dataPeriodToModelPeriod := d2m'\<rparr>)"
    unfolding set_data_def
    by (simp only: rs1 rs2 res and_then_def sum.case prod.case)
  then show ?thesis
    using aligned by blast
qed

subsection \<open>The whole of \<^verbatim>\<open>set\<close>\<close>

lemma set_Modeltime_phases:
  "set_Modeltime mt lg =
     and_then (set_upto_years mt lg) (\<lambda>(mt3, lg1).
     and_then (set_data mt3) (\<lambda>mt4. Inr (mt4, lg1)))"
  by (simp add: set_Modeltime_def set_upto_years_def and_then_def split: sum.splits prod.splits)

lemma max_period_valid:
  assumes "valid_config mt"
  shows "1 \<le> maxPeriod (with_counts mt)"
  using counts_nonneg [OF assms] by (simp add: counts_a)

lemma set_upto_years_spec:
  assumes v: "valid_config mt"
  shows "\<exists>mt3. set_upto_years mt lg = Inr (mt3, warnings mt lg) \<and> walked mt mt3"
proof -
  let ?wc = "with_counts mt"
  let ?mt2 = "?wc\<lparr>periodToTimeStep := steps_of mt\<rparr>"
  have c: "set_counts mt lg = Inr (?wc, warnings mt lg, rem1 mt, rem2 mt, rem3 mt)"
    using v by (intro set_counts_eq) (auto simp: valid_config_def)
  have t: "set_timesteps ?wc (rem1 mt) (rem2 mt) (rem3 mt) = Inr ?mt2"
    unfolding steps_of_def
    using counts_nonneg [OF v] by (intro set_timesteps_ok) (simp_all add: counts_a)
  have mp: "1 \<le> maxPeriod ?mt2" using max_period_valid [OF v] by simp
  have len: "length (periodToTimeStep ?mt2) = nat (maxPeriod ?mt2)"
    using steps_of_length [OF v] by simp
  have pos: "\<forall>x \<in> set (periodToTimeStep ?mt2). 1 \<le> x"
    using steps_of_pos [OF v] by simp
  obtain ym yrs where
    y: "set_years ?mt2 = Inr (?mt2\<lparr>yearToModelPeriod := ym, modelPeriodToYear := yrs\<rparr>)"
    and built: "years_built (periodToTimeStep ?mt2) (startYear ?mt2) yrs"
    and mapped: "years_mapped yrs (yearToModelPeriod ?mt2) ym"
    and range: "\<forall>y v. ym y = Some v
                 \<longrightarrow> yearToModelPeriod ?mt2 y = Some v \<or> (0 \<le> v \<and> v < maxPeriod ?mt2)"
    using set_years_spec [OF mp len pos] by blast
  let ?mt3 = "?mt2\<lparr>yearToModelPeriod := ym, modelPeriodToYear := yrs\<rparr>"
  have run: "set_upto_years mt lg = Inr (?mt3, warnings mt lg)"
    unfolding set_upto_years_def
    by (simp only: c t y and_then_def sum.case prod.case)
  have "walked mt ?mt3"
    unfolding walked_def
  proof (intro conjI)
    show "?mt3 = ?wc\<lparr>periodToTimeStep := steps_of mt,
              modelPeriodToYear := modelPeriodToYear ?mt3,
              yearToModelPeriod := yearToModelPeriod ?mt3\<rparr>"
      by simp
    show "years_built (steps_of mt) (startYear mt) (modelPeriodToYear ?mt3)"
      using built by (simp add: counts_config)
    show "years_mapped (modelPeriodToYear ?mt3) (yearToModelPeriod mt) (yearToModelPeriod ?mt3)"
      using mapped by (simp add: counts_config)
    show "\<forall>y v. yearToModelPeriod ?mt3 y = Some v \<longrightarrow>
                yearToModelPeriod mt y = Some v \<or> (0 \<le> v \<and> v < maxPeriod ?wc)"
      using range by (simp add: counts_config)
  qed
  with run show ?thesis by blast
qed

lemma walked_fields:
  assumes "walked mt mt3"
  shows "startYear mt3 = startYear mt" and "interYear1 mt3 = interYear1 mt"
    and "interYear2 mt3 = interYear2 mt" and "endYear mt3 = endYear mt"
    and "dataEndYear mt3 = dataEndYear mt" and "dataTimeStep mt3 = dataTimeStep mt"
    and "timeStep1 mt3 = timeStep1 mt" and "timeStep2 mt3 = timeStep2 mt"
    and "timeStep3 mt3 = timeStep3 mt"
    and "numberOfPeriods1 mt3 = numberOfPeriods1 (with_counts mt)"
    and "numberOfPeriods1a mt3 = numberOfPeriods1a (with_counts mt)"
    and "numberOfPeriods2 mt3 = numberOfPeriods2 (with_counts mt)"
    and "numberOfPeriods2a mt3 = numberOfPeriods2a (with_counts mt)"
    and "numberOfPeriods3 mt3 = numberOfPeriods3 (with_counts mt)"
    and "numberOfPeriods3a mt3 = numberOfPeriods3a (with_counts mt)"
    and "maxPeriod mt3 = maxPeriod (with_counts mt)"
    and "maxDataPeriod mt3 = maxDataPeriod (with_counts mt)"
    and "periodToTimeStep mt3 = steps_of mt"
    and "dataOffset mt3 = dataOffset mt"
    and "dataPeriodToModelPeriod mt3 = dataPeriodToModelPeriod mt"
proof -
  from assms have eq: "mt3 = (with_counts mt)
             \<lparr>periodToTimeStep := steps_of mt,
              modelPeriodToYear := modelPeriodToYear mt3,
              yearToModelPeriod := yearToModelPeriod mt3\<rparr>"
    by (simp add: walked_def)
  show "startYear mt3 = startYear mt" by (subst eq) (simp add: counts_config)
  show "interYear1 mt3 = interYear1 mt" by (subst eq) (simp add: counts_config)
  show "interYear2 mt3 = interYear2 mt" by (subst eq) (simp add: counts_config)
  show "endYear mt3 = endYear mt" by (subst eq) (simp add: counts_config)
  show "dataEndYear mt3 = dataEndYear mt" by (subst eq) (simp add: counts_config)
  show "dataTimeStep mt3 = dataTimeStep mt" by (subst eq) (simp add: counts_config)
  show "timeStep1 mt3 = timeStep1 mt" by (subst eq) (simp add: counts_config)
  show "timeStep2 mt3 = timeStep2 mt" by (subst eq) (simp add: counts_config)
  show "timeStep3 mt3 = timeStep3 mt" by (subst eq) (simp add: counts_config)
  show "numberOfPeriods1 mt3 = numberOfPeriods1 (with_counts mt)" by (subst eq) simp
  show "numberOfPeriods1a mt3 = numberOfPeriods1a (with_counts mt)" by (subst eq) simp
  show "numberOfPeriods2 mt3 = numberOfPeriods2 (with_counts mt)" by (subst eq) simp
  show "numberOfPeriods2a mt3 = numberOfPeriods2a (with_counts mt)" by (subst eq) simp
  show "numberOfPeriods3 mt3 = numberOfPeriods3 (with_counts mt)" by (subst eq) simp
  show "numberOfPeriods3a mt3 = numberOfPeriods3a (with_counts mt)" by (subst eq) simp
  show "maxPeriod mt3 = maxPeriod (with_counts mt)" by (subst eq) simp
  show "maxDataPeriod mt3 = maxDataPeriod (with_counts mt)" by (subst eq) simp
  show "periodToTimeStep mt3 = steps_of mt" by (subst eq) simp
  show "dataOffset mt3 = dataOffset mt" by (subst eq) (simp add: counts_config)
  show "dataPeriodToModelPeriod mt3 = dataPeriodToModelPeriod mt"
    by (subst eq) (simp add: counts_config)
qed

lemma aligned_fields:
  assumes "aligned mt3 mt'"
  shows "startYear mt' = startYear mt3" and "interYear1 mt' = interYear1 mt3"
    and "interYear2 mt' = interYear2 mt3" and "endYear mt' = endYear mt3"
    and "dataEndYear mt' = dataEndYear mt3" and "dataTimeStep mt' = dataTimeStep mt3"
    and "timeStep1 mt' = timeStep1 mt3" and "timeStep2 mt' = timeStep2 mt3"
    and "timeStep3 mt' = timeStep3 mt3"
    and "numberOfPeriods1 mt' = numberOfPeriods1 mt3"
    and "numberOfPeriods1a mt' = numberOfPeriods1a mt3"
    and "numberOfPeriods2 mt' = numberOfPeriods2 mt3"
    and "numberOfPeriods2a mt' = numberOfPeriods2a mt3"
    and "numberOfPeriods3 mt' = numberOfPeriods3 mt3"
    and "numberOfPeriods3a mt' = numberOfPeriods3a mt3"
    and "maxPeriod mt' = maxPeriod mt3"
    and "maxDataPeriod mt' = maxDataPeriod mt3"
    and "periodToTimeStep mt' = periodToTimeStep mt3"
    and "modelPeriodToYear mt' = modelPeriodToYear mt3"
proof -
  from assms have eq: "mt' = mt3\<lparr>dataOffset := dataOffset mt',
               dataPeriodToModelPeriod := dataPeriodToModelPeriod mt',
               yearToModelPeriod := yearToModelPeriod mt'\<rparr>"
    by (simp add: aligned_def)
  show "startYear mt' = startYear mt3" by (subst eq) simp
  show "interYear1 mt' = interYear1 mt3" by (subst eq) simp
  show "interYear2 mt' = interYear2 mt3" by (subst eq) simp
  show "endYear mt' = endYear mt3" by (subst eq) simp
  show "dataEndYear mt' = dataEndYear mt3" by (subst eq) simp
  show "dataTimeStep mt' = dataTimeStep mt3" by (subst eq) simp
  show "timeStep1 mt' = timeStep1 mt3" by (subst eq) simp
  show "timeStep2 mt' = timeStep2 mt3" by (subst eq) simp
  show "timeStep3 mt' = timeStep3 mt3" by (subst eq) simp
  show "numberOfPeriods1 mt' = numberOfPeriods1 mt3" by (subst eq) simp
  show "numberOfPeriods1a mt' = numberOfPeriods1a mt3" by (subst eq) simp
  show "numberOfPeriods2 mt' = numberOfPeriods2 mt3" by (subst eq) simp
  show "numberOfPeriods2a mt' = numberOfPeriods2a mt3" by (subst eq) simp
  show "numberOfPeriods3 mt' = numberOfPeriods3 mt3" by (subst eq) simp
  show "numberOfPeriods3a mt' = numberOfPeriods3a mt3" by (subst eq) simp
  show "maxPeriod mt' = maxPeriod mt3" by (subst eq) simp
  show "maxDataPeriod mt' = maxDataPeriod mt3" by (subst eq) simp
  show "periodToTimeStep mt' = periodToTimeStep mt3" by (subst eq) simp
  show "modelPeriodToYear mt' = modelPeriodToYear mt3" by (subst eq) simp
qed

lemma set_data_walked:
  assumes v: "valid_config mt"
    and below: "map_below (yearToModelPeriod mt) (maxPeriod (with_counts mt))"
    and w: "walked mt mt3"
  shows "\<exists>mt'. set_data mt3 = Inr mt' \<and> aligned mt3 mt'"
proof -
  note f = walked_fields [OF w]
  have nd: "0 \<le> maxDataPeriod mt3" using counts_nonneg(4) [OF v] f by simp
  have len: "length (periodToTimeStep mt3) = nat (maxPeriod (with_counts mt))"
    using steps_of_length [OF v] f by simp
  have ne: "periodToTimeStep mt3 \<noteq> []" using len max_period_valid [OF v] by auto
  have ran3: "\<forall>y v. yearToModelPeriod mt3 y = Some v
                 \<longrightarrow> 0 \<le> v \<and> nat v < length (periodToTimeStep mt3)"
  proof (intro allI impI)
    fix y v assume "yearToModelPeriod mt3 y = Some v"
    then have "0 \<le> v \<and> v < maxPeriod (with_counts mt)"
      using w below by (auto simp: map_below_def walked_def)
    then show "0 \<le> v \<and> nat v < length (periodToTimeStep mt3)"
      using len by simp
  qed
  have pos: "\<forall>x \<in> set (periodToTimeStep mt3). 1 \<le> x"
    using steps_of_pos [OF v] f by simp
  have nz: "\<forall>k < length (periodToTimeStep mt3). periodToTimeStep mt3 ! k \<noteq> 0"
    using pos by (auto simp del: One_nat_def dest!: nth_mem)
  obtain ymF off d2m where
    d: "set_data mt3 = Inr (mt3\<lparr>yearToModelPeriod := ymF, dataOffset := off,
                                 dataPeriodToModelPeriod := d2m\<rparr>)"
    and al: "data_aligned (periodToTimeStep mt3) (startYear mt3) (dataTimeStep mt3)
                (maxDataPeriod mt3 = maxPeriod mt3) (nat (maxDataPeriod mt3))
                (yearToModelPeriod mt3) ymF off d2m"
    using set_data_spec [OF nd ne ran3 nz] by blast
  let ?mt4 = "mt3\<lparr>yearToModelPeriod := ymF, dataOffset := off,
                                 dataPeriodToModelPeriod := d2m\<rparr>"
  have "aligned mt3 ?mt4"
    unfolding aligned_def using al by simp
  with d show ?thesis by blast
qed

lemma set_Modeltime_spec:
  assumes v: "valid_config mt"
    and below: "map_below (yearToModelPeriod mt) (maxPeriod (with_counts mt))"
  shows "\<exists>mt3 mt'. set_upto_years mt lg = Inr (mt3, warnings mt lg) \<and> set_data mt3 = Inr mt'
           \<and> set_Modeltime mt lg = Inr (mt', warnings mt lg)
           \<and> walked mt mt3 \<and> aligned mt3 mt'"
proof -
  obtain mt3 where u: "set_upto_years mt lg = Inr (mt3, warnings mt lg)" and w: "walked mt mt3"
    using set_upto_years_spec [OF v] by blast
  obtain mt' where d: "set_data mt3 = Inr mt'" and a: "aligned mt3 mt'"
    using set_data_walked [OF v below w] by blast
  have "set_Modeltime mt lg = Inr (mt', warnings mt lg)"
    by (simp add: set_Modeltime_phases u d and_then_def)
  with u d w a show ?thesis by blast
qed

lemma unfinalized_below: "unfinalized mt \<Longrightarrow> map_below (yearToModelPeriod mt) n"
  by (simp add: unfinalized_def map_below_def)

subsection \<open>Consequences for a freshly configured object\<close>

lemma set_runs:
  assumes "valid_config mt" "unfinalized mt"
  shows "\<exists>mt3 mt'. set_Modeltime mt lg = Inr (mt', warnings mt lg)
           \<and> set_upto_years mt lg = Inr (mt3, warnings mt lg) \<and> set_data mt3 = Inr mt'
           \<and> walked mt mt3 \<and> aligned mt3 mt'"
  using set_Modeltime_spec [OF assms(1) unfinalized_below [OF assms(2)], of lg] by blast

lemma years_closed:
  assumes "years_built P start Y" "k < length Y"
  shows "Y ! k = start + sum_list (take k (tl P))"
  using assms(2)
proof (induction k)
  case 0
  then show ?case using assms(1) by (simp add: years_built_def)
next
  case (Suc k)
  have len: "length Y = length P" using assms(1) by (simp add: years_built_def)
  have "Y ! Suc k = Y ! k + P ! Suc k"
    using assms(1) Suc.prems by (simp add: years_built_def)
  moreover have "take (Suc k) (tl P) = take k (tl P) @ [P ! Suc k]"
    using Suc.prems len by (simp add: take_Suc_conv_app_nth nth_tl)
  ultimately show ?case using Suc by simp
qed

lemma walked_years:
  assumes v: "valid_config mt" and w: "walked mt mt3"
  shows "length (modelPeriodToYear mt3) = nat (maxPeriod (with_counts mt))"
    and "modelPeriodToYear mt3 ! 0 = startYear mt"
    and "modelPeriodToYear mt3 ! (nat (maxPeriod (with_counts mt)) - 1) = endYear mt"
    and "last (modelPeriodToYear mt3) = endYear mt"
    and "\<forall>k. 1 \<le> k \<and> k < length (modelPeriodToYear mt3)
           \<longrightarrow> modelPeriodToYear mt3 ! (k - 1) < modelPeriodToYear mt3 ! k"
proof -
  let ?Y = "modelPeriodToYear mt3" and ?P = "steps_of mt"
  let ?n = "nat (maxPeriod (with_counts mt))"
  have built: "years_built ?P (startYear mt) ?Y" using w by (simp add: walked_def)
  then have lenY: "length ?Y = length ?P" and ne: "?Y \<noteq> []"
    by (simp_all add: years_built_def)
  show len: "length ?Y = ?n" using lenY steps_of_length [OF v] by simp
  show "?Y ! 0 = startYear mt" using built by (simp add: years_built_def)
  have n1: "?n - 1 < length ?Y" using ne len by (metis diff_less length_greater_0_conv zero_less_one)
  have "take (?n - 1) (tl ?P) = tl ?P"
    using steps_of_length [OF v] by simp
  then have "?Y ! (?n - 1) = startYear mt + sum_list (tl ?P)"
    using years_closed [OF built n1] by simp
  moreover have "sum_list ?P = timeStep1 mt + sum_list (tl ?P)"
    by (subst steps_of_hd [OF v]) simp
  ultimately show last: "?Y ! (?n - 1) = endYear mt"
    using steps_of_sum [OF v] by simp
  show "last ?Y = endYear mt"
    using last ne len by (simp add: last_conv_nth)
  show "\<forall>k. 1 \<le> k \<and> k < length ?Y \<longrightarrow> ?Y ! (k - 1) < ?Y ! k"
  proof (intro allI impI)
    fix k assume k: "1 \<le> k \<and> k < length ?Y"
    then have "?Y ! k = ?Y ! (k - 1) + ?P ! k"
      using built by (simp add: years_built_def)
    moreover have "1 \<le> ?P ! k"
      using steps_of_pos [OF v] k lenY by (metis nth_mem)
    ultimately show "?Y ! (k - 1) < ?Y ! k" by linarith
  qed
qed

lemma adjacent_increasing:
  fixes Y :: "int list"
  assumes "\<forall>k. 1 \<le> k \<and> k < length Y \<longrightarrow> Y ! (k - 1) < Y ! k"
    and "i < j" "j < length Y"
  shows "Y ! i < Y ! j"
  using assms(2,3)
proof (induction j)
  case 0
  then show ?case by simp
next
  case (Suc j)
  have step: "Y ! j < Y ! Suc j" using assms(1) Suc.prems by (metis One_nat_def diff_Suc_1 le_add1 plus_1_eq_Suc)
  show ?case
  proof (cases "i = j")
    case True
    then show ?thesis using step by simp
  next
    case False
    then have "Y ! i < Y ! j" using Suc by simp
    then show ?thesis using step by linarith
  qed
qed

lemma scenarioA_ok: "valid_config scenarioA \<and> unfinalized scenarioA"
  by (simp add: scenarioA_def configure_def Modeltime_new_def initElementalMembers_def
      valid_config_def unfinalized_def)

lemma scenarioB_ok: "valid_config scenarioB \<and> unfinalized scenarioB"
  by (simp add: scenarioB_def configure_def Modeltime_new_def initElementalMembers_def
      valid_config_def unfinalized_def)

lemma fine_data_ok: "valid_config fine_data \<and> unfinalized fine_data"
  by (simp add: fine_data_def configure_def Modeltime_new_def initElementalMembers_def
      valid_config_def unfinalized_def)

lemma long_data_ok: "valid_config long_data \<and> unfinalized long_data"
  by (simp add: long_data_def configure_def Modeltime_new_def initElementalMembers_def
      valid_config_def unfinalized_def)

lemma scenario_fields:
  "startYear scenarioA = 1990" "interYear1 scenarioA = 2005" "interYear2 scenarioA = 2035"
  "endYear scenarioA = 2095" "timeStep1 scenarioA = 5" "timeStep2 scenarioA = 5"
  "timeStep3 scenarioA = 10" "dataEndYear scenarioA = 2005" "dataTimeStep scenarioA = 5"
  "startYear scenarioB = 2000" "interYear1 scenarioB = 2007" "interYear2 scenarioB = 2017"
  "endYear scenarioB = 2037" "timeStep1 scenarioB = 5" "timeStep2 scenarioB = 5"
  "timeStep3 scenarioB = 10" "dataEndYear scenarioB = 2005" "dataTimeStep scenarioB = 5"
  by (simp_all add: scenarioA_def scenarioB_def configure_def Modeltime_new_def
      initElementalMembers_def)

lemma final_map_some:
  assumes "aligned mt3 mt'" "yearToModelPeriod mt3 y = Some k"
  shows "yearToModelPeriod mt' y = Some k"
  using assms by (simp add: aligned_def data_aligned_def)

lemma final_map_none:
  assumes "aligned mt3 mt'" "yearToModelPeriod mt3 y = None"
  shows "yearToModelPeriod mt' y
           = (if on_data_grid (startYear mt3) (dataTimeStep mt3) (nat (maxDataPeriod mt3)) y
              then Some 0 else None)"
  using assms by (simp add: aligned_def data_aligned_def)

lemma walked_map:
  assumes v: "valid_config mt" and w: "walked mt mt3"
  shows "yearToModelPeriod mt3 (startYear mt) = Some 0"
    and "\<forall>k y. 1 \<le> k \<and> k < length (modelPeriodToYear mt3)
             \<and> modelPeriodToYear mt3 ! (k - 1) < y \<and> y \<le> modelPeriodToYear mt3 ! k
           \<longrightarrow> yearToModelPeriod mt3 y = Some (int k)"
    and "\<forall>y. startYear mt < y \<and> y \<le> endYear mt
           \<longrightarrow> (\<exists>k. 1 \<le> k \<and> k < length (modelPeriodToYear mt3)
                  \<and> modelPeriodToYear mt3 ! (k - 1) < y \<and> y \<le> modelPeriodToYear mt3 ! k)"
    and "\<forall>y. y < startYear mt \<or> endYear mt < y
           \<longrightarrow> yearToModelPeriod mt3 y = yearToModelPeriod mt y"
proof -
  have m: "years_mapped (modelPeriodToYear mt3) (yearToModelPeriod mt) (yearToModelPeriod mt3)"
    using w by (simp add: walked_def)
  note y = walked_years [OF v w]
  show "yearToModelPeriod mt3 (startYear mt) = Some 0"
    using m y(2) by (simp add: years_mapped_def)
  show "\<forall>k y. 1 \<le> k \<and> k < length (modelPeriodToYear mt3)
             \<and> modelPeriodToYear mt3 ! (k - 1) < y \<and> y \<le> modelPeriodToYear mt3 ! k
           \<longrightarrow> yearToModelPeriod mt3 y = Some (int k)"
    using m by (simp add: years_mapped_def)
  show "\<forall>y. startYear mt < y \<and> y \<le> endYear mt
           \<longrightarrow> (\<exists>k. 1 \<le> k \<and> k < length (modelPeriodToYear mt3)
                  \<and> modelPeriodToYear mt3 ! (k - 1) < y \<and> y \<le> modelPeriodToYear mt3 ! k)"
    using m y(2,4) by (simp add: years_mapped_def)
  show "\<forall>y. y < startYear mt \<or> endYear mt < y
           \<longrightarrow> yearToModelPeriod mt3 y = yearToModelPeriod mt y"
    using m y(2,4) by (simp add: years_mapped_def)
qed

lemma walked_period_year:
  assumes v: "valid_config mt" and w: "walked mt mt3"
    and i: "i < length (modelPeriodToYear mt3)"
  shows "yearToModelPeriod mt3 (modelPeriodToYear mt3 ! i) = Some (int i)"
proof (cases "i = 0")
  case True
  then show ?thesis using walked_map(1) [OF v w] walked_years(2) [OF v w] by simp
next
  case False
  then have "1 \<le> i \<and> i < length (modelPeriodToYear mt3)
             \<and> modelPeriodToYear mt3 ! (i - 1) < modelPeriodToYear mt3 ! i
             \<and> modelPeriodToYear mt3 ! i \<le> modelPeriodToYear mt3 ! i"
    using i walked_years(5) [OF v w] by simp
  then show ?thesis using walked_map(2) [OF v w] by blast
qed

lemma scenarioB_final:
  assumes "set_Modeltime scenarioB [] = Inr (mt', lg')"
  shows "maxPeriod mt' = 7"
    and "periodToTimeStep mt' = [5, 5, 2, 5, 5, 10, 10]"
    and "modelPeriodToYear mt' = [2000, 2005, 2007, 2012, 2017, 2027, 2037]"
proof -
  have "map_option maxPeriod (finalize scenarioB) = Some 7"
    and "map_option periodToTimeStep (finalize scenarioB) = Some [5, 5, 2, 5, 5, 10, 10]"
    and "map_option modelPeriodToYear (finalize scenarioB)
           = Some [2000, 2005, 2007, 2012, 2017, 2027, 2037]"
    by code_simp+
  then show "maxPeriod mt' = 7"
    and "periodToTimeStep mt' = [5, 5, 2, 5, 5, 10, 10]"
    and "modelPeriodToYear mt' = [2000, 2005, 2007, 2012, 2017, 2027, 2037]"
    using assms by (simp_all add: finalize_def)
qed

lemma not_on_grid_before:
  assumes "0 < dts" "y < start"
  shows "\<not> on_data_grid start dts n y"
proof
  assume "on_data_grid start dts n y"
  then obtain k where "y = start + int k * dts" by (auto simp: on_data_grid_def)
  moreover have "0 \<le> int k * dts" using assms(1) by simp
  ultimately show False using assms(2) by linarith
qed

lemma final_absent_before:
  assumes v: "valid_config mt" and u: "unfinalized mt"
    and w: "walked mt mt3" and a: "aligned mt3 mt'" and y: "y < startYear mt"
  shows "yearToModelPeriod mt' y = None"
proof -
  have "yearToModelPeriod mt3 y = None"
    using walked_map(4) [OF v w] y u by (simp add: unfinalized_def)
  moreover have "\<not> on_data_grid (startYear mt3) (dataTimeStep mt3) (nat (maxDataPeriod mt3)) y"
    using v y by (intro not_on_grid_before) (simp_all add: walked_fields [OF w] valid_config_def)
  ultimately show ?thesis using final_map_none [OF a] by simp
qed

lemma final_data:
  assumes v: "valid_config mt" and w: "walked mt mt3" and a: "aligned mt3 mt'"
  shows "length (dataOffset mt') = nat (maxDataPeriod mt')"
    and "length (dataPeriodToModelPeriod mt') = nat (maxDataPeriod mt')"
    and "\<forall>k < nat (maxDataPeriod mt'). dataPeriodToModelPeriod mt' ! k
           = lookup0 (yearToModelPeriod mt3) (startYear mt + int k * dataTimeStep mt)"
    and "\<forall>k < nat (maxDataPeriod mt'). dataOffset mt' ! k
           = (if maxDataPeriod mt' = maxPeriod mt' then 0
              else dataTimeStep mt sdiv periodToTimeStep mt' ! nat (dataPeriodToModelPeriod mt' ! k))"
proof -
  have d: "data_aligned (periodToTimeStep mt3) (startYear mt3) (dataTimeStep mt3)
       (maxDataPeriod mt3 = maxPeriod mt3) (nat (maxDataPeriod mt3))
       (yearToModelPeriod mt3) (yearToModelPeriod mt') (dataOffset mt')
       (dataPeriodToModelPeriod mt')"
    using a by (simp add: aligned_def)
  note fa = aligned_fields [OF a] and fw = walked_fields [OF w]
  show "length (dataOffset mt') = nat (maxDataPeriod mt')"
    using d by (simp add: data_aligned_def fa)
  show "length (dataPeriodToModelPeriod mt') = nat (maxDataPeriod mt')"
    using d by (simp add: data_aligned_def fa)
  show "\<forall>k < nat (maxDataPeriod mt'). dataPeriodToModelPeriod mt' ! k
           = lookup0 (yearToModelPeriod mt3) (startYear mt + int k * dataTimeStep mt)"
    using d by (simp add: data_aligned_def fa fw)
  show "\<forall>k < nat (maxDataPeriod mt'). dataOffset mt' ! k
           = (if maxDataPeriod mt' = maxPeriod mt' then 0
              else dataTimeStep mt sdiv periodToTimeStep mt' ! nat (dataPeriodToModelPeriod mt' ! k))"
    using d by (simp add: data_aligned_def fa fw)
qed

lemma walked_below:
  assumes v: "valid_config mt" and u: "unfinalized mt" and w: "walked mt mt3"
  shows "map_below (yearToModelPeriod mt3) (maxPeriod (with_counts mt))"
  using w u by (auto simp: walked_def map_below_def unfinalized_def)

lemma lookup0_below:
  assumes "map_below ym n" "1 \<le> n"
  shows "0 \<le> lookup0 ym y \<and> lookup0 ym y < n"
  using assms by (auto simp: map_below_def lookup0_def split: option.splits)

lemma years_uniform:
  assumes b: "years_built P start Y" and u: "\<forall>k < length P. P ! k = d" and k: "k < length Y"
  shows "Y ! k = start + int k * d"
  using k
proof (induction k)
  case 0
  then show ?case using b by (simp add: years_built_def)
next
  case (Suc k)
  have "Y ! Suc k = Y ! k + P ! Suc k"
    using b Suc.prems by (simp add: years_built_def)
  moreover have "P ! Suc k = d" using u b Suc.prems by (simp add: years_built_def)
  ultimately show ?case using Suc by (simp add: algebra_simps)
qed

lemma le_div_iff_int:
  fixes a d k :: int
  assumes "0 < d"
  shows "k \<le> a div d \<longleftrightarrow> k * d \<le> a"
proof
  assume "k \<le> a div d"
  then have "k * d \<le> (a div d) * d" using assms by simp
  also have "\<dots> \<le> a"
    using assms by (metis add.commute le_add_same_cancel2 mult.commute mult_div_mod_eq pos_mod_sign)
  finally show "k * d \<le> a" .
next
  assume "k * d \<le> a"
  then have "(k * d) div d \<le> a div d" using assms by (rule zdiv_mono1)
  then show "k \<le> a div d" using assms by simp
qed

lemma data_index_bound:
  assumes v: "valid_config mt"
  shows "int i < maxDataPeriod (with_counts mt)
           \<longleftrightarrow> startYear mt + int i * dataTimeStep mt \<le> dataEndYear mt"
proof -
  let ?d = "dataTimeStep mt" and ?a = "dataEndYear mt - startYear mt"
  have d: "0 < ?d" using v by (simp add: valid_config_def)
  have "int i < ?a div ?d + 1 \<longleftrightarrow> int i \<le> ?a div ?d" by linarith
  also have "\<dots> \<longleftrightarrow> int i * ?d \<le> ?a"
    by (rule le_div_iff_int [OF d])
  also have "\<dots> \<longleftrightarrow> startYear mt + int i * ?d \<le> dataEndYear mt" by linarith
  finally show ?thesis
    by (simp add: counts_valid [OF v])
qed

lemma even_grid_ok: "valid_config even_grid \<and> unfinalized even_grid"
  by (simp add: even_grid_def configure_def Modeltime_new_def initElementalMembers_def
      valid_config_def unfinalized_def)

lemma long_data_fields:
  "startYear long_data = 2000" "endYear long_data = 2006" "dataEndYear long_data = 2010"
  "dataTimeStep long_data = 2"
  by (simp_all add: long_data_def configure_def Modeltime_new_def initElementalMembers_def)

lemma with_counts_cong:
  assumes "startYear a = startYear b" "interYear1 a = interYear1 b"
    "interYear2 a = interYear2 b" "endYear a = endYear b" "dataEndYear a = dataEndYear b"
    "dataTimeStep a = dataTimeStep b" "timeStep1 a = timeStep1 b" "timeStep2 a = timeStep2 b"
    "timeStep3 a = timeStep3 b"
  shows "rem1 a = rem1 b" "rem2 a = rem2 b" "rem3 a = rem3 b"
    and "numberOfPeriods1 (with_counts a) = numberOfPeriods1 (with_counts b)"
    and "numberOfPeriods1a (with_counts a) = numberOfPeriods1a (with_counts b)"
    and "numberOfPeriods2 (with_counts a) = numberOfPeriods2 (with_counts b)"
    and "numberOfPeriods2a (with_counts a) = numberOfPeriods2a (with_counts b)"
    and "numberOfPeriods3 (with_counts a) = numberOfPeriods3 (with_counts b)"
    and "numberOfPeriods3a (with_counts a) = numberOfPeriods3a (with_counts b)"
    and "maxPeriod (with_counts a) = maxPeriod (with_counts b)"
    and "maxDataPeriod (with_counts a) = maxDataPeriod (with_counts b)"
    and "steps_of a = steps_of b"
    and "valid_config a = valid_config b"
  using assms
  by (simp_all add: rem1_def rem2_def rem3_def with_counts_def steps_of_def expected_steps_def
      valid_config_def)

lemma years_built_unique:
  assumes "years_built P start Y" "years_built P start Z"
  shows "Y = Z"
proof (rule nth_equalityI)
  show "length Y = length Z" using assms by (simp add: years_built_def)
next
  fix k assume "k < length Y"
  then have "k < length Z" using assms by (simp add: years_built_def)
  then show "Y ! k = Z ! k"
    using years_closed [OF assms(1) \<open>k < length Y\<close>] years_closed [OF assms(2)] by simp
qed

lemma final_lookup0:
  assumes "aligned mt3 mt'"
  shows "lookup0 (yearToModelPeriod mt') y = lookup0 (yearToModelPeriod mt3) y"
  using assms by (simp add: aligned_def data_aligned_def lookup0_def)

lemma final_below:
  assumes v: "valid_config mt" and u: "unfinalized mt"
    and w: "walked mt mt3" and a: "aligned mt3 mt'"
  shows "map_below (yearToModelPeriod mt') (maxPeriod (with_counts mt))"
  unfolding map_below_def
proof (intro allI impI)
  fix y k assume h: "yearToModelPeriod mt' y = Some k"
  have b: "map_below (yearToModelPeriod mt3) (maxPeriod (with_counts mt))"
    by (rule walked_below [OF v u w])
  have "k = lookup0 (yearToModelPeriod mt3) y"
    using final_lookup0 [OF a, of y] h by (simp add: lookup0_def)
  then show "0 \<le> k \<and> k < maxPeriod (with_counts mt)"
    using lookup0_below [OF b max_period_valid [OF v]] by simp
qed

text \<open>A second run of \<^verbatim>\<open>set\<close> on the object that a first run has made.\<close>

lemma second_run_same:
  assumes v: "valid_config mt" and u: "unfinalized mt"
    and w: "walked mt mt3" and a: "aligned mt3 mt'"
    and w2: "walked mt' mt3'" and a2: "aligned mt3' mt''"
  shows "mt'' = mt'"
proof -
  note fa = aligned_fields [OF a] and fw = walked_fields [OF w]
  note fa2 = aligned_fields [OF a2] and fw2 = walked_fields [OF w2]
  have cfg: "startYear mt' = startYear mt" "interYear1 mt' = interYear1 mt"
    "interYear2 mt' = interYear2 mt" "endYear mt' = endYear mt"
    "dataEndYear mt' = dataEndYear mt" "dataTimeStep mt' = dataTimeStep mt"
    "timeStep1 mt' = timeStep1 mt" "timeStep2 mt' = timeStep2 mt" "timeStep3 mt' = timeStep3 mt"
    by (simp_all add: fa fw)
  note cong = with_counts_cong [OF cfg]
  have v': "valid_config mt'" using v cong(13) by simp
  let ?Y = "modelPeriodToYear mt3"
  have Y: "modelPeriodToYear mt3' = ?Y"
  proof (rule years_built_unique)
    show "years_built (steps_of mt) (startYear mt) (modelPeriodToYear mt3')"
      using w2 by (simp add: walked_def cong(12) cfg)
    show "years_built (steps_of mt) (startYear mt) ?Y"
      using w by (simp add: walked_def)
  qed
  note m1 = walked_map [OF v w]
  note m2 = walked_map [OF v' w2, unfolded Y cfg]
  have map3: "yearToModelPeriod mt3' = yearToModelPeriod mt'"
  proof
    fix y
    consider "y = startYear mt" | "startYear mt < y \<and> y \<le> endYear mt"
      | "y < startYear mt \<or> endYear mt < y" by linarith
    then show "yearToModelPeriod mt3' y = yearToModelPeriod mt' y"
    proof cases
      case 1
      then show ?thesis using m2(1) final_map_some [OF a m1(1)] by simp
    next
      case 2
      then obtain k where k: "1 \<le> k \<and> k < length ?Y \<and> ?Y ! (k - 1) < y \<and> y \<le> ?Y ! k"
        using m1(3) by blast
      then have "yearToModelPeriod mt3 y = Some (int k)" using m1(2) by blast
      then have "yearToModelPeriod mt' y = Some (int k)" by (rule final_map_some [OF a])
      moreover have "yearToModelPeriod mt3' y = Some (int k)" using m2(2) k by blast
      ultimately show ?thesis by simp
    next
      case 3
      then show ?thesis using m2(4) by blast
    qed
  qed
  note d1 = final_data [OF v w a]
  note d2 = final_data [OF v' w2 a2, unfolded map3 cfg]
  have nd: "maxDataPeriod mt'' = maxDataPeriod mt'"
    by (simp add: fa2 fw2 fa fw cong)
  have np: "maxPeriod mt'' = maxPeriod mt'"
    by (simp add: fa2 fw2 fa fw cong)
  have P: "periodToTimeStep mt'' = periodToTimeStep mt'"
    by (simp add: fa2 fw2 fa fw cong)
  have D: "dataPeriodToModelPeriod mt'' = dataPeriodToModelPeriod mt'"
  proof (rule nth_equalityI)
    show "length (dataPeriodToModelPeriod mt'') = length (dataPeriodToModelPeriod mt')"
      using d1(2) d2(2) nd by simp
  next
    fix k assume "k < length (dataPeriodToModelPeriod mt'')"
    then have k: "k < nat (maxDataPeriod mt'')" "k < nat (maxDataPeriod mt')"
      using d2(2) nd by simp_all
    show "dataPeriodToModelPeriod mt'' ! k = dataPeriodToModelPeriod mt' ! k"
      using d2(3) d1(3) k final_lookup0 [OF a] by simp
  qed
  have O: "dataOffset mt'' = dataOffset mt'"
  proof (rule nth_equalityI)
    show "length (dataOffset mt'') = length (dataOffset mt')"
      using d1(1) d2(1) nd by simp
  next
    fix k assume "k < length (dataOffset mt'')"
    then have k: "k < nat (maxDataPeriod mt'')" "k < nat (maxDataPeriod mt')"
      using d2(1) nd by simp_all
    show "dataOffset mt'' ! k = dataOffset mt' ! k"
      using d2(4) d1(4) k by (simp add: nd np P D)
  qed
  have M: "yearToModelPeriod mt'' = yearToModelPeriod mt'"
  proof
    fix y
    have 1: "yearToModelPeriod mt' y
              = (if yearToModelPeriod mt3 y = None
                    \<and> on_data_grid (startYear mt) (dataTimeStep mt)
                         (nat (maxDataPeriod (with_counts mt))) y
                 then Some 0 else yearToModelPeriod mt3 y)"
      using a by (simp add: aligned_def data_aligned_def fw)
    have 2: "yearToModelPeriod mt'' y
              = (if yearToModelPeriod mt' y = None
                    \<and> on_data_grid (startYear mt) (dataTimeStep mt)
                         (nat (maxDataPeriod (with_counts mt))) y
                 then Some 0 else yearToModelPeriod mt' y)"
      using a2 by (simp add: aligned_def data_aligned_def fw2 map3 cfg cong)
    show "yearToModelPeriod mt'' y = yearToModelPeriod mt' y"
      unfolding 2 using 1 by (simp split: if_splits)
  qed
  show ?thesis
  proof (rule Modeltime.equality)
    show "startYear mt'' = startYear mt'" by (simp add: fa2 fw2)
    show "interYear1 mt'' = interYear1 mt'" by (simp add: fa2 fw2)
    show "interYear2 mt'' = interYear2 mt'" by (simp add: fa2 fw2)
    show "endYear mt'' = endYear mt'" by (simp add: fa2 fw2)
    show "dataEndYear mt'' = dataEndYear mt'" by (simp add: fa2 fw2)
    show "maxPeriod mt'' = maxPeriod mt'" by (rule np)
    show "maxDataPeriod mt'' = maxDataPeriod mt'" by (rule nd)
    show "dataTimeStep mt'' = dataTimeStep mt'" by (simp add: fa2 fw2)
    show "timeStep1 mt'' = timeStep1 mt'" by (simp add: fa2 fw2)
    show "timeStep2 mt'' = timeStep2 mt'" by (simp add: fa2 fw2)
    show "timeStep3 mt'' = timeStep3 mt'" by (simp add: fa2 fw2)
    show "numberOfPeriods1 mt'' = numberOfPeriods1 mt'" by (simp add: fa2 fw2 fa fw cong)
    show "numberOfPeriods1a mt'' = numberOfPeriods1a mt'" by (simp add: fa2 fw2 fa fw cong)
    show "numberOfPeriods2 mt'' = numberOfPeriods2 mt'" by (simp add: fa2 fw2 fa fw cong)
    show "numberOfPeriods2a mt'' = numberOfPeriods2a mt'" by (simp add: fa2 fw2 fa fw cong)
    show "numberOfPeriods3 mt'' = numberOfPeriods3 mt'" by (simp add: fa2 fw2 fa fw cong)
    show "numberOfPeriods3a mt'' = numberOfPeriods3a mt'" by (simp add: fa2 fw2 fa fw cong)
    show "periodToTimeStep mt'' = periodToTimeStep mt'" by (rule P)
    show "dataOffset mt'' = dataOffset mt'" by (rule O)
    show "modelPeriodToYear mt'' = modelPeriodToYear mt'" by (simp add: fa2 fa Y)
    show "dataPeriodToModelPeriod mt'' = dataPeriodToModelPeriod mt'" by (rule D)
    show "yearToModelPeriod mt'' = yearToModelPeriod mt'" by (rule M)
    show "Modeltime.more mt'' = Modeltime.more mt'" by simp
  qed
qed

text \<open>Why a valid configuration needs \<open>startYear \<le> dataEndYear\<close>: with a data grid that ends
  20 years before the start year \<open>maxDataPeriod\<close> is \<open>-3\<close>, and \<^verbatim>\<open>set\<close> does not return.\<close>

lemma set_throws_on_early_data:
  "isl (set_Modeltime early_data []) \<and> projl (set_Modeltime early_data []) = LengthError"
  by code_simp

lemma not_on_grid_after:
  assumes v: "valid_config mt" and y: "dataEndYear mt < y"
  shows "\<not> on_data_grid (startYear mt) (dataTimeStep mt) (nat (maxDataPeriod (with_counts mt))) y"
proof
  assume "on_data_grid (startYear mt) (dataTimeStep mt) (nat (maxDataPeriod (with_counts mt))) y"
  then obtain k where k: "k < nat (maxDataPeriod (with_counts mt))"
    and yk: "y = startYear mt + int k * dataTimeStep mt"
    by (auto simp: on_data_grid_def)
  have "int k < maxDataPeriod (with_counts mt)" using k by simp
  then have "startYear mt + int k * dataTimeStep mt \<le> dataEndYear mt"
    using data_index_bound [OF v] by simp
  then show False using y yk by simp
qed

lemma final_absent_after:
  assumes v: "valid_config mt" and u: "unfinalized mt"
    and w: "walked mt mt3" and a: "aligned mt3 mt'"
    and y: "endYear mt < y" "dataEndYear mt < y"
  shows "yearToModelPeriod mt' y = None"
proof -
  have "yearToModelPeriod mt3 y = None"
    using walked_map(4) [OF v w] y u by (simp add: unfinalized_def)
  moreover have "\<not> on_data_grid (startYear mt3) (dataTimeStep mt3) (nat (maxDataPeriod mt3)) y"
    using not_on_grid_after [OF v y(2)] by (simp add: walked_fields [OF w])
  ultimately show ?thesis using final_map_none [OF a] by simp
qed

section \<open>The claims\<close>

text \<open>
  C1 (amended).  For every valid configuration \<^verbatim>\<open>set\<close> returns, and the counts are
  \<open>numberOfPeriods1 = (interYear1 - startYear) div timeStep1 + 1\<close> (the period of the start
  year is counted with era 1), \<open>numberOfPeriods2 = (interYear2 - interYear1) div timeStep2\<close>
  and \<open>numberOfPeriods3 = (endYear - interYear2) div timeStep3\<close>.
\<close>

theorem period_counts:
  assumes "valid_config mt" "unfinalized mt"
  shows "\<exists>mt' lg'. set_Modeltime mt lg = Inr (mt', lg')
           \<and> numberOfPeriods1 mt' = (interYear1 mt - startYear mt) div timeStep1 mt + 1
           \<and> numberOfPeriods2 mt' = (interYear2 mt - interYear1 mt) div timeStep2 mt
           \<and> numberOfPeriods3 mt' = (endYear mt - interYear2 mt) div timeStep3 mt"
proof -
  obtain mt3 mt' where run: "set_Modeltime mt lg = Inr (mt', warnings mt lg)"
    and w: "walked mt mt3" and a: "aligned mt3 mt'"
    using set_runs [OF assms] by blast
  have "numberOfPeriods1 mt' = (interYear1 mt - startYear mt) div timeStep1 mt + 1"
    by (simp add: aligned_fields(10) [OF a] walked_fields(10) [OF w] counts_valid [OF assms(1)])
  moreover have "numberOfPeriods2 mt' = (interYear2 mt - interYear1 mt) div timeStep2 mt"
    by (simp add: aligned_fields(12) [OF a] walked_fields(12) [OF w] counts_valid [OF assms(1)])
  moreover have "numberOfPeriods3 mt' = (endYear mt - interYear2 mt) div timeStep3 mt"
    by (simp add: aligned_fields(14) [OF a] walked_fields(14) [OF w] counts_valid [OF assms(1)])
  ultimately show ?thesis using run by blast
qed

text \<open>Scenario B has two periods in era 1 before its remainder period, scenario A four.\<close>

theorem period_counts_witness:
  "(valid_config scenarioB \<and> unfinalized scenarioB
    \<and> (\<exists>mt' lg'. set_Modeltime scenarioB [] = Inr (mt', lg')
          \<and> numberOfPeriods1 mt' = 2 \<and> numberOfPeriods2 mt' = 2 \<and> numberOfPeriods3 mt' = 2))
   \<and> (valid_config scenarioA \<and> unfinalized scenarioA
    \<and> (\<exists>mt' lg'. set_Modeltime scenarioA [] = Inr (mt', lg')
          \<and> numberOfPeriods1 mt' = 4 \<and> numberOfPeriods2 mt' = 6 \<and> numberOfPeriods3 mt' = 6))"
  using period_counts [of scenarioB "[]"] period_counts [of scenarioA "[]"]
    scenarioA_ok scenarioB_ok
  by (simp add: scenario_fields)

text \<open>The claim as written fails on scenario B: \<open>(2007 - 2000) div 5 = 1\<close>, but \<^verbatim>\<open>set\<close>
  leaves \<open>numberOfPeriods1 = 2\<close> and \<open>numberOfPeriods1a = 3\<close>; on scenario A era 1 has 4
  periods.\<close>

theorem period_counts_counterexample:
  "map_option numberOfPeriods1 (finalize scenarioB) = Some 2
   \<and> map_option numberOfPeriods1a (finalize scenarioB) = Some 3
   \<and> (interYear1 scenarioB - startYear scenarioB) sdiv timeStep1 scenarioB = 1
   \<and> map_option numberOfPeriods1 (finalize scenarioA) = Some 4"
  by code_simp

text \<open>
  C2 (amended).  For every valid configuration \<^verbatim>\<open>set\<close> returns, \<open>periodToTimeStep\<close> has
  \<open>maxPeriod\<close> entries, and their sum is \<open>endYear - startYear + timeStep1\<close>: entry 0 is
  \<open>timeStep1\<close>, the step recorded for the period of the start year, and the entries
  \<open>1 .. maxPeriod - 1\<close> sum to \<open>endYear - startYear\<close>.
\<close>

theorem time_step_sum:
  assumes "valid_config mt" "unfinalized mt"
  shows "\<exists>mt' lg'. set_Modeltime mt lg = Inr (mt', lg')
           \<and> length (periodToTimeStep mt') = nat (maxPeriod mt')
           \<and> (\<Sum>k = 0..<nat (maxPeriod mt'). periodToTimeStep mt' ! k)
               = endYear mt - startYear mt + timeStep1 mt
           \<and> periodToTimeStep mt' ! 0 = timeStep1 mt
           \<and> (\<Sum>k = 1..<nat (maxPeriod mt'). periodToTimeStep mt' ! k)
               = endYear mt - startYear mt"
proof -
  obtain mt3 mt' where run: "set_Modeltime mt lg = Inr (mt', warnings mt lg)"
    and w: "walked mt mt3" and a: "aligned mt3 mt'"
    using set_runs [OF assms] by blast
  let ?P = "periodToTimeStep mt'" and ?n = "nat (maxPeriod mt')"
  have P: "?P = steps_of mt"
    by (simp add: aligned_fields(18) [OF a] walked_fields(18) [OF w])
  have n: "maxPeriod mt' = maxPeriod (with_counts mt)"
    by (simp add: aligned_fields(16) [OF a] walked_fields(16) [OF w])
  have len: "length ?P = ?n"
    by (simp add: P n steps_of_length [OF assms(1)])
  have pos: "0 < ?n"
    using max_period_valid [OF assms(1)] n by simp
  have all: "(\<Sum>k = 0..<?n. ?P ! k) = endYear mt - startYear mt + timeStep1 mt"
    using steps_of_sum [OF assms(1)] len by (simp add: P sum_list_sum_nth)
  have first: "?P ! 0 = timeStep1 mt"
    by (subst P, subst steps_of_hd [OF assms(1)]) simp
  have "(\<Sum>k = 0..<?n. ?P ! k) = ?P ! 0 + (\<Sum>k = 1..<?n. ?P ! k)"
    using pos by (simp add: sum.atLeast_Suc_lessThan)
  then have rest: "(\<Sum>k = 1..<?n. ?P ! k) = endYear mt - startYear mt"
    using all first by simp
  show ?thesis using run len all first rest by blast
qed

theorem time_step_sum_witness:
  "valid_config scenarioB \<and> unfinalized scenarioB
   \<and> (\<exists>mt' lg'. set_Modeltime scenarioB [] = Inr (mt', lg')
         \<and> length (periodToTimeStep mt') = nat (maxPeriod mt')
         \<and> (\<Sum>k = 0..<nat (maxPeriod mt'). periodToTimeStep mt' ! k) = 42
         \<and> periodToTimeStep mt' ! 0 = 5
         \<and> (\<Sum>k = 1..<nat (maxPeriod mt'). periodToTimeStep mt' ! k) = 37)"
  using time_step_sum [of scenarioB "[]"] scenarioB_ok
  by (simp add: scenario_fields)

text \<open>The claim as written fails on scenario B: the entries of \<open>periodToTimeStep\<close> sum to
  42, and \<open>endYear - startYear = 37\<close>.\<close>

theorem time_step_sum_counterexample:
  "map_option sum_list (map_option periodToTimeStep (finalize scenarioB)) = Some 42
   \<and> map_option periodToTimeStep (finalize scenarioB) = Some [5, 5, 2, 5, 5, 10, 10]
   \<and> endYear scenarioB - startYear scenarioB = 37"
  by code_simp

text \<open>
  C3.  For every valid configuration \<^verbatim>\<open>set\<close> returns, \<open>modelPeriodToYear\<close> has
  \<open>maxPeriod\<close> entries, is strictly increasing, starts at \<open>startYear\<close> and ends exactly at
  \<open>endYear\<close>.
\<close>

theorem period_years_increasing:
  assumes "valid_config mt" "unfinalized mt"
  shows "\<exists>mt' lg'. set_Modeltime mt lg = Inr (mt', lg')
           \<and> 1 \<le> maxPeriod mt'
           \<and> length (modelPeriodToYear mt') = nat (maxPeriod mt')
           \<and> (\<forall>i j. i < j \<and> j < nat (maxPeriod mt')
                 \<longrightarrow> modelPeriodToYear mt' ! i < modelPeriodToYear mt' ! j)
           \<and> modelPeriodToYear mt' ! 0 = startYear mt
           \<and> modelPeriodToYear mt' ! nat (maxPeriod mt' - 1) = endYear mt"
proof -
  obtain mt3 mt' where run: "set_Modeltime mt lg = Inr (mt', warnings mt lg)"
    and w: "walked mt mt3" and a: "aligned mt3 mt'"
    using set_runs [OF assms] by blast
  let ?Y = "modelPeriodToYear mt'"
  have Y: "?Y = modelPeriodToYear mt3" by (rule aligned_fields(19) [OF a])
  have n: "maxPeriod mt' = maxPeriod (with_counts mt)"
    by (simp add: aligned_fields(16) [OF a] walked_fields(16) [OF w])
  note y = walked_years [OF assms(1) w]
  have one: "1 \<le> maxPeriod mt'" using max_period_valid [OF assms(1)] n by simp
  have len: "length ?Y = nat (maxPeriod mt')" using y(1) Y n by simp
  have inc: "\<forall>i j. i < j \<and> j < nat (maxPeriod mt') \<longrightarrow> ?Y ! i < ?Y ! j"
    using adjacent_increasing [OF y(5)] len Y by simp
  have first: "?Y ! 0 = startYear mt" using y(2) Y by simp
  have "nat (maxPeriod mt' - 1) = nat (maxPeriod (with_counts mt)) - 1"
    using n by (simp add: nat_diff_distrib')
  then have lst: "?Y ! nat (maxPeriod mt' - 1) = endYear mt" using y(3) Y by simp
  show ?thesis using run one len inc first lst by blast
qed

text \<open>Scenario B, whose first era is uneven: the years run from 2000 to 2037.\<close>

theorem period_years_increasing_witness:
  "valid_config scenarioB \<and> unfinalized scenarioB
   \<and> (\<exists>mt' lg'. set_Modeltime scenarioB [] = Inr (mt', lg')
         \<and> modelPeriodToYear mt' ! 0 = 2000
         \<and> modelPeriodToYear mt' ! 1 < modelPeriodToYear mt' ! 2
         \<and> modelPeriodToYear mt' ! nat (maxPeriod mt' - 1) = 2037)"
proof -
  obtain mt' lg' where run: "set_Modeltime scenarioB [] = Inr (mt', lg')"
    and inc: "\<forall>i j. i < j \<and> j < nat (maxPeriod mt')
                 \<longrightarrow> modelPeriodToYear mt' ! i < modelPeriodToYear mt' ! j"
    and ends: "modelPeriodToYear mt' ! 0 = startYear scenarioB"
      "modelPeriodToYear mt' ! nat (maxPeriod mt' - 1) = endYear scenarioB"
    using period_years_increasing [of scenarioB "[]"] scenarioB_ok by blast
  have "(1::nat) < 2 \<and> 2 < nat (maxPeriod mt')"
    using scenarioB_final(1) [OF run] by simp
  then have "modelPeriodToYear mt' ! 1 < modelPeriodToYear mt' ! 2"
    using inc by blast
  then show ?thesis
    using run ends scenarioB_ok by (auto simp: scenario_fields)
qed

text \<open>
  C4.  For every valid configuration \<^verbatim>\<open>set\<close> returns, and afterwards
  \<^verbatim>\<open>getyr_to_per\<close> maps the year of every period \<open>i < maxPeriod\<close> back to \<open>i\<close>, logging
  nothing.
\<close>

theorem year_period_round_trip:
  assumes "valid_config mt" "unfinalized mt"
  shows "\<exists>mt' lg'. set_Modeltime mt lg = Inr (mt', lg')
           \<and> (\<forall>i lg2. i < nat (maxPeriod mt')
                 \<longrightarrow> getyr_to_per mt' (modelPeriodToYear mt' ! i) lg2 = (int i, lg2))"
proof -
  obtain mt3 mt' where run: "set_Modeltime mt lg = Inr (mt', warnings mt lg)"
    and w: "walked mt mt3" and a: "aligned mt3 mt'"
    using set_runs [OF assms] by blast
  have Y: "modelPeriodToYear mt' = modelPeriodToYear mt3" by (rule aligned_fields(19) [OF a])
  have n: "maxPeriod mt' = maxPeriod (with_counts mt)"
    by (simp add: aligned_fields(16) [OF a] walked_fields(16) [OF w])
  have "\<forall>i lg2. i < nat (maxPeriod mt')
          \<longrightarrow> getyr_to_per mt' (modelPeriodToYear mt' ! i) lg2 = (int i, lg2)"
  proof (intro allI impI)
    fix i lg2 assume "i < nat (maxPeriod mt')"
    then have "i < length (modelPeriodToYear mt3)"
      using walked_years(1) [OF assms(1) w] n by simp
    then have "yearToModelPeriod mt3 (modelPeriodToYear mt3 ! i) = Some (int i)"
      by (rule walked_period_year [OF assms(1) w])
    then have "yearToModelPeriod mt' (modelPeriodToYear mt' ! i) = Some (int i)"
      using final_map_some [OF a] Y by simp
    then show "getyr_to_per mt' (modelPeriodToYear mt' ! i) lg2 = (int i, lg2)"
      by (simp add: getyr_to_per_def)
  qed
  with run show ?thesis by blast
qed

text \<open>Scenario B: period 2, the remainder period, has the year 2007.\<close>

theorem year_period_round_trip_witness:
  "valid_config scenarioB \<and> unfinalized scenarioB
   \<and> (\<exists>mt' lg'. set_Modeltime scenarioB [] = Inr (mt', lg')
         \<and> modelPeriodToYear mt' ! 2 = 2007 \<and> getyr_to_per mt' 2007 [] = (2, []))"
proof -
  obtain mt' lg' where run: "set_Modeltime scenarioB [] = Inr (mt', lg')"
    and rt: "\<forall>i lg2. i < nat (maxPeriod mt')
                 \<longrightarrow> getyr_to_per mt' (modelPeriodToYear mt' ! i) lg2 = (int i, lg2)"
    using year_period_round_trip [of scenarioB "[]"] scenarioB_ok by blast
  have "(2::nat) < nat (maxPeriod mt')"
    using scenarioB_final(1) [OF run] by simp
  then have "getyr_to_per mt' (modelPeriodToYear mt' ! 2) [] = (int 2, [])"
    using rt by blast
  then show ?thesis
    using run scenarioB_ok scenarioB_final(3) [OF run] by auto
qed

text \<open>
  C5.  For every valid configuration \<^verbatim>\<open>set\<close> returns, and afterwards every year strictly
  between the years of the periods \<open>i - 1\<close> and \<open>i\<close>, where \<open>1 \<le> i < maxPeriod\<close> and the step
  of period \<open>i\<close> exceeds one year, is mapped to the later period \<open>i\<close>.
\<close>

theorem intermediate_years_forward:
  assumes "valid_config mt" "unfinalized mt"
  shows "\<exists>mt' lg'. set_Modeltime mt lg = Inr (mt', lg')
           \<and> (\<forall>i y. 1 \<le> i \<and> i < nat (maxPeriod mt') \<and> 1 < periodToTimeStep mt' ! i
                   \<and> modelPeriodToYear mt' ! (i - 1) < y \<and> y < modelPeriodToYear mt' ! i
                 \<longrightarrow> yearToModelPeriod mt' y = Some (int i))"
proof -
  obtain mt3 mt' where run: "set_Modeltime mt lg = Inr (mt', warnings mt lg)"
    and w: "walked mt mt3" and a: "aligned mt3 mt'"
    using set_runs [OF assms] by blast
  have Y: "modelPeriodToYear mt' = modelPeriodToYear mt3" by (rule aligned_fields(19) [OF a])
  have n: "maxPeriod mt' = maxPeriod (with_counts mt)"
    by (simp add: aligned_fields(16) [OF a] walked_fields(16) [OF w])
  have "\<forall>i y. 1 \<le> i \<and> i < nat (maxPeriod mt') \<and> 1 < periodToTimeStep mt' ! i
                   \<and> modelPeriodToYear mt' ! (i - 1) < y \<and> y < modelPeriodToYear mt' ! i
                 \<longrightarrow> yearToModelPeriod mt' y = Some (int i)"
  proof (intro allI impI)
    fix i y
    assume h: "1 \<le> i \<and> i < nat (maxPeriod mt') \<and> 1 < periodToTimeStep mt' ! i
                   \<and> modelPeriodToYear mt' ! (i - 1) < y \<and> y < modelPeriodToYear mt' ! i"
    then have "1 \<le> i \<and> i < length (modelPeriodToYear mt3)
             \<and> modelPeriodToYear mt3 ! (i - 1) < y \<and> y \<le> modelPeriodToYear mt3 ! i"
      using walked_years(1) [OF assms(1) w] n Y by simp
    then have "yearToModelPeriod mt3 y = Some (int i)"
      using walked_map(2) [OF assms(1) w] by blast
    then show "yearToModelPeriod mt' y = Some (int i)"
      by (rule final_map_some [OF a])
  qed
  with run show ?thesis by blast
qed

text \<open>Scenario B: 2006 lies between the years 2005 and 2007 of the periods 1 and 2, and
  2001 between 2000 and 2005.\<close>

theorem intermediate_years_forward_witness:
  "valid_config scenarioB \<and> unfinalized scenarioB
   \<and> (\<exists>mt' lg'. set_Modeltime scenarioB [] = Inr (mt', lg')
         \<and> periodToTimeStep mt' ! 2 = 2
         \<and> modelPeriodToYear mt' ! 1 = 2005 \<and> modelPeriodToYear mt' ! 2 = 2007
         \<and> yearToModelPeriod mt' 2006 = Some 2)"
proof -
  obtain mt' lg' where run: "set_Modeltime scenarioB [] = Inr (mt', lg')"
    and fw: "\<forall>i y. 1 \<le> i \<and> i < nat (maxPeriod mt') \<and> 1 < periodToTimeStep mt' ! i
                   \<and> modelPeriodToYear mt' ! (i - 1) < y \<and> y < modelPeriodToYear mt' ! i
                 \<longrightarrow> yearToModelPeriod mt' y = Some (int i)"
    using intermediate_years_forward [of scenarioB "[]"] scenarioB_ok by blast
  note f = scenarioB_final [OF run]
  have "1 \<le> (2::nat) \<and> 2 < nat (maxPeriod mt') \<and> 1 < periodToTimeStep mt' ! 2
          \<and> modelPeriodToYear mt' ! (2 - 1) < 2006 \<and> 2006 < modelPeriodToYear mt' ! 2"
    by (simp add: f)
  then have "yearToModelPeriod mt' 2006 = Some (int 2)"
    using fw by blast
  then show ?thesis
    using run scenarioB_ok by (auto simp: f)
qed

text \<open>
  C6.  \<^verbatim>\<open>getyr_to_per\<close> always returns.  For a year that is not a key of
  \<open>yearToModelPeriod\<close> it returns 0 and appends one \<open>ERROR\<close> line to the log; for a year
  that is a key it returns the stored period and logs nothing.  The method is
  \<^verbatim>\<open>const\<close>: its result is a value and a log, the object is not changed.  After
  \<^verbatim>\<open>set\<close> on a valid configuration every year before \<open>startYear\<close>, and every year after
  both \<open>endYear\<close> and \<open>dataEndYear\<close>, is such a missing key.
\<close>

theorem lookup_miss_sentinel:
  "(yearToModelPeriod mt year = None
      \<longrightarrow> getyr_to_per mt year lg = (0, lg @ [invalid_year year]))
   \<and> (\<forall>p. yearToModelPeriod mt year = Some p \<longrightarrow> getyr_to_per mt year lg = (p, lg))
   \<and> (valid_config mt \<and> unfinalized mt
        \<and> (year < startYear mt \<or> (endYear mt < year \<and> dataEndYear mt < year))
      \<longrightarrow> (\<exists>mt' lg'. set_Modeltime mt lg = Inr (mt', lg')
             \<and> yearToModelPeriod mt' year = None
             \<and> getyr_to_per mt' year lg' = (0, lg' @ [invalid_year year])))"
proof (intro conjI impI)
  show "yearToModelPeriod mt year = None
          \<Longrightarrow> getyr_to_per mt year lg = (0, lg @ [invalid_year year])"
    by (simp add: getyr_to_per_def invalid_year_def log_line_def)
  show "\<forall>p. yearToModelPeriod mt year = Some p \<longrightarrow> getyr_to_per mt year lg = (p, lg)"
    by (simp add: getyr_to_per_def)
  assume h: "valid_config mt \<and> unfinalized mt
        \<and> (year < startYear mt \<or> (endYear mt < year \<and> dataEndYear mt < year))"
  then obtain mt3 mt' where run: "set_Modeltime mt lg = Inr (mt', warnings mt lg)"
    and w: "walked mt mt3" and a: "aligned mt3 mt'"
    using set_runs [of mt lg] by blast
  have miss: "yearToModelPeriod mt' year = None"
    using h final_absent_before [OF _ _ w a, of year] final_absent_after [OF _ _ w a, of year]
    by blast
  then have "getyr_to_per mt' year (warnings mt lg) = (0, warnings mt lg @ [invalid_year year])"
    by (simp add: getyr_to_per_def invalid_year_def log_line_def)
  with run miss
  show "\<exists>mt' lg'. set_Modeltime mt lg = Inr (mt', lg')
             \<and> yearToModelPeriod mt' year = None
             \<and> getyr_to_per mt' year lg' = (0, lg' @ [invalid_year year])"
    by blast
qed

text \<open>Scenario C: after \<^verbatim>\<open>set\<close> on scenario A the year 1800 is not a key, the year 1990
  is.\<close>

theorem lookup_miss_sentinel_witness:
  "valid_config scenarioA \<and> unfinalized scenarioA \<and> 1800 < startYear scenarioA
   \<and> (\<exists>mt' lg'. set_Modeltime scenarioA [] = Inr (mt', lg')
         \<and> yearToModelPeriod mt' 1800 = None
         \<and> getyr_to_per mt' 1800 lg'
             = (0, lg' @ [(ERROR, [Text ''Invalid year: '', Number 1800,
                                   Text '' passed to Modeltime::getyr_to_per. ''])])
         \<and> yearToModelPeriod mt' 1990 = Some 0
         \<and> getyr_to_per mt' 1990 lg' = (0, lg'))"
proof -
  have h: "valid_config scenarioA \<and> unfinalized scenarioA
        \<and> (1800 < startYear scenarioA
            \<or> (endYear scenarioA < 1800 \<and> dataEndYear scenarioA < 1800))"
    using scenarioA_ok by (simp add: scenario_fields)
  obtain mt' lg' where run: "set_Modeltime scenarioA [] = Inr (mt', lg')"
    and miss: "yearToModelPeriod mt' 1800 = None"
      "getyr_to_per mt' 1800 lg' = (0, lg' @ [invalid_year 1800])"
    using lookup_miss_sentinel [of scenarioA 1800 "[]"] h by blast
  obtain mt3 mt2 where run2: "set_Modeltime scenarioA [] = Inr (mt2, warnings scenarioA [])"
    and w: "walked scenarioA mt3" and a: "aligned mt3 mt2"
    using set_runs [of scenarioA "[]"] scenarioA_ok by blast
  have same: "mt2 = mt'" using run run2 by simp
  have hit: "yearToModelPeriod mt' 1990 = Some 0"
    using final_map_some [OF a] walked_map(1) [OF _ w] scenarioA_ok same
    by (simp add: scenario_fields)
  then have "getyr_to_per mt' 1990 lg' = (0, lg')"
    using lookup_miss_sentinel [of mt' 1990 lg'] by blast
  then show ?thesis
    using run miss hit h by (auto simp: invalid_year_def scenario_fields)
qed

text \<open>
  C7.  For every valid configuration \<^verbatim>\<open>set\<close> returns; an era whose span is a multiple of
  its step gets no extra period and no warning; an era with a remainder gets one extra
  period, whose step is the remainder and which comes right after the era's full-step
  periods, and the warning of that era is logged.
\<close>

theorem remainder_periods:
  assumes "valid_config mt" "unfinalized mt"
  shows "\<exists>mt' lg'. set_Modeltime mt lg = Inr (mt', lg')
           \<and> rem1 mt = (interYear1 mt - startYear mt) mod timeStep1 mt
           \<and> rem2 mt = (interYear2 mt - interYear1 mt) mod timeStep2 mt
           \<and> rem3 mt = (endYear mt - interYear2 mt) mod timeStep3 mt
           \<and> numberOfPeriods1a mt' = numberOfPeriods1 mt' + (if rem1 mt = 0 then 0 else 1)
           \<and> numberOfPeriods2a mt' = numberOfPeriods2 mt' + (if rem2 mt = 0 then 0 else 1)
           \<and> numberOfPeriods3a mt' = numberOfPeriods3 mt' + (if rem3 mt = 0 then 0 else 1)
           \<and> periodToTimeStep mt' =
               replicate (nat (numberOfPeriods1 mt')) (timeStep1 mt) @
               (if rem1 mt = 0 then [] else [rem1 mt]) @
               replicate (nat (numberOfPeriods2 mt')) (timeStep2 mt) @
               (if rem2 mt = 0 then [] else [rem2 mt]) @
               replicate (nat (numberOfPeriods3 mt')) (timeStep3 mt) @
               (if rem3 mt = 0 then [] else [rem3 mt])
           \<and> lg' = lg @ (if rem1 mt = 0 then [] else [warning1])
                      @ (if rem2 mt = 0 then [] else [warning2])
                      @ (if rem3 mt = 0 then [] else [warning3])"
proof -
  obtain mt3 mt' where run: "set_Modeltime mt lg = Inr (mt', warnings mt lg)"
    and w: "walked mt mt3" and a: "aligned mt3 mt'"
    using set_runs [OF assms] by blast
  note fa = aligned_fields [OF a] and fw = walked_fields [OF w]
  have n: "numberOfPeriods1 mt' = numberOfPeriods1 (with_counts mt)"
    "numberOfPeriods2 mt' = numberOfPeriods2 (with_counts mt)"
    "numberOfPeriods3 mt' = numberOfPeriods3 (with_counts mt)"
    by (simp_all add: fa fw)
  have na: "numberOfPeriods1a mt' = numberOfPeriods1 mt' + (if rem1 mt = 0 then 0 else 1)"
    "numberOfPeriods2a mt' = numberOfPeriods2 mt' + (if rem2 mt = 0 then 0 else 1)"
    "numberOfPeriods3a mt' = numberOfPeriods3 mt' + (if rem3 mt = 0 then 0 else 1)"
    by (simp_all add: fa fw counts_a)
  have P: "periodToTimeStep mt' =
               replicate (nat (numberOfPeriods1 mt')) (timeStep1 mt) @
               (if rem1 mt = 0 then [] else [rem1 mt]) @
               replicate (nat (numberOfPeriods2 mt')) (timeStep2 mt) @
               (if rem2 mt = 0 then [] else [rem2 mt]) @
               replicate (nat (numberOfPeriods3 mt')) (timeStep3 mt) @
               (if rem3 mt = 0 then [] else [rem3 mt])"
    unfolding n by (simp add: fa fw steps_of_eq [OF assms(1)])
  have L: "warnings mt lg = lg @ (if rem1 mt = 0 then [] else [warning1])
                      @ (if rem2 mt = 0 then [] else [warning2])
                      @ (if rem3 mt = 0 then [] else [warning3])"
    by (simp add: warnings_def)
  show ?thesis
    using run rems_valid(1-3) [OF assms(1)] na P L by blast
qed

text \<open>Scenario B: era 1 (7 years in steps of 5) is uneven, eras 2 and 3 are even.\<close>

theorem remainder_periods_witness:
  "valid_config scenarioB \<and> unfinalized scenarioB
   \<and> (\<exists>mt' lg'. set_Modeltime scenarioB [] = Inr (mt', lg')
         \<and> numberOfPeriods1 mt' = 2 \<and> numberOfPeriods1a mt' = 3
         \<and> numberOfPeriods2a mt' = numberOfPeriods2 mt'
         \<and> numberOfPeriods3a mt' = numberOfPeriods3 mt'
         \<and> periodToTimeStep mt' = [5, 5, 2, 5, 5, 10, 10]
         \<and> lg' = [(WARNING, [Text ''first time interval not divisible timeStep1''])])"
proof -
  have r: "rem1 scenarioB = 2" "rem2 scenarioB = 0" "rem3 scenarioB = 0"
    by (simp_all add: rem1_def rem2_def rem3_def scenario_fields signed_modulo_int_def)
  obtain mt' lg' where run: "set_Modeltime scenarioB [] = Inr (mt', lg')"
    and na: "numberOfPeriods1a mt' = numberOfPeriods1 mt' + 1"
      "numberOfPeriods2a mt' = numberOfPeriods2 mt'"
      "numberOfPeriods3a mt' = numberOfPeriods3 mt'"
    and lg: "lg' = [warning1]"
    using remainder_periods [of scenarioB "[]"] scenarioB_ok by (auto simp: r)
  have "map_option numberOfPeriods1 (finalize scenarioB) = Some 2" by code_simp
  then have "numberOfPeriods1 mt' = 2" using run by (simp add: finalize_def)
  then show ?thesis
    using run na lg scenarioB_ok scenarioB_final(2) [OF run] by (auto simp: warning1_def)
qed

text \<open>
  C8 (amended).  For every valid configuration \<^verbatim>\<open>set\<close> returns, \<open>dataOffset\<close> and
  \<open>dataPeriodToModelPeriod\<close> have \<open>maxDataPeriod\<close> entries, every entry \<open>m\<close> of
  \<open>dataPeriodToModelPeriod\<close> is a period index, and \<open>dataOffset ! i\<close> is 0 when
  \<open>maxDataPeriod = maxPeriod\<close> and \<open>dataTimeStep div periodToTimeStep ! m\<close> otherwise (a
  quotient that is itself 0 when the data step is shorter than the step of period \<open>m\<close>).
  When the two grids coincide, that is \<open>maxDataPeriod = maxPeriod\<close> and every entry of
  \<open>periodToTimeStep\<close> is \<open>dataTimeStep\<close>, then \<open>dataOffset ! i = 0\<close> and
  \<open>dataPeriodToModelPeriod ! i = i\<close> for every \<open>i < maxDataPeriod\<close>.
\<close>

theorem data_alignment:
  assumes "valid_config mt" "unfinalized mt"
  shows "\<exists>mt' lg'. set_Modeltime mt lg = Inr (mt', lg')
           \<and> length (dataOffset mt') = nat (maxDataPeriod mt')
           \<and> length (dataPeriodToModelPeriod mt') = nat (maxDataPeriod mt')
           \<and> (\<forall>i < nat (maxDataPeriod mt').
                 0 \<le> dataPeriodToModelPeriod mt' ! i
                 \<and> dataPeriodToModelPeriod mt' ! i < maxPeriod mt'
                 \<and> dataOffset mt' ! i =
                     (if maxDataPeriod mt' = maxPeriod mt' then 0
                      else dataTimeStep mt
                             div periodToTimeStep mt' ! nat (dataPeriodToModelPeriod mt' ! i)))
           \<and> (maxDataPeriod mt' = maxPeriod mt'
                \<and> (\<forall>k < nat (maxPeriod mt'). periodToTimeStep mt' ! k = dataTimeStep mt)
               \<longrightarrow> (\<forall>i < nat (maxDataPeriod mt').
                      dataOffset mt' ! i = 0 \<and> dataPeriodToModelPeriod mt' ! i = int i))"
proof -
  obtain mt3 mt' where run: "set_Modeltime mt lg = Inr (mt', warnings mt lg)"
    and w: "walked mt mt3" and a: "aligned mt3 mt'"
    using set_runs [OF assms] by blast
  note fa = aligned_fields [OF a] and fw = walked_fields [OF w]
  note fd = final_data [OF assms(1) w a]
  let ?D = "dataPeriodToModelPeriod mt'" and ?P = "periodToTimeStep mt'"
  have P: "?P = steps_of mt" by (simp add: fa fw)
  have n: "maxPeriod mt' = maxPeriod (with_counts mt)" by (simp add: fa fw)
  have lenP: "length ?P = nat (maxPeriod mt')"
    by (simp add: P n steps_of_length [OF assms(1)])
  have below: "map_below (yearToModelPeriod mt3) (maxPeriod mt')"
    using walked_below [OF assms w] n by simp
  have one: "1 \<le> maxPeriod mt'" using max_period_valid [OF assms(1)] n by simp
  have dts: "0 < dataTimeStep mt" using assms(1) by (simp add: valid_config_def)
  have each: "\<forall>i < nat (maxDataPeriod mt').
                 0 \<le> ?D ! i \<and> ?D ! i < maxPeriod mt'
                 \<and> dataOffset mt' ! i =
                     (if maxDataPeriod mt' = maxPeriod mt' then 0
                      else dataTimeStep mt div ?P ! nat (?D ! i))"
  proof (intro allI impI)
    fix i assume i: "i < nat (maxDataPeriod mt')"
    have m: "0 \<le> ?D ! i \<and> ?D ! i < maxPeriod mt'"
      using fd(3) i lookup0_below [OF below one] by simp
    then have "nat (?D ! i) < length ?P" using lenP by simp
    then have "1 \<le> ?P ! nat (?D ! i)"
      using steps_of_pos [OF assms(1)] P by (metis nth_mem)
    then have "dataTimeStep mt sdiv ?P ! nat (?D ! i) = dataTimeStep mt div ?P ! nat (?D ! i)"
      using dts by (intro sdiv_pos) simp_all
    then show "0 \<le> ?D ! i \<and> ?D ! i < maxPeriod mt'
                 \<and> dataOffset mt' ! i =
                     (if maxDataPeriod mt' = maxPeriod mt' then 0
                      else dataTimeStep mt div ?P ! nat (?D ! i))"
      using m fd(4) i by simp
  qed
  have coincide: "maxDataPeriod mt' = maxPeriod mt'
                \<and> (\<forall>k < nat (maxPeriod mt'). ?P ! k = dataTimeStep mt)
               \<longrightarrow> (\<forall>i < nat (maxDataPeriod mt').
                      dataOffset mt' ! i = 0 \<and> ?D ! i = int i)"
  proof (intro impI allI)
    fix i
    assume h: "maxDataPeriod mt' = maxPeriod mt'
                \<and> (\<forall>k < nat (maxPeriod mt'). ?P ! k = dataTimeStep mt)"
      and i: "i < nat (maxDataPeriod mt')"
    have built: "years_built (steps_of mt) (startYear mt) (modelPeriodToYear mt3)"
      using w by (simp add: walked_def)
    have uni: "\<forall>k < length (steps_of mt). steps_of mt ! k = dataTimeStep mt"
      using h lenP P by simp
    have iY: "i < length (modelPeriodToYear mt3)"
      using i h walked_years(1) [OF assms(1) w] n by simp
    have "modelPeriodToYear mt3 ! i = startYear mt + int i * dataTimeStep mt"
      by (rule years_uniform [OF built uni iY])
    then have "yearToModelPeriod mt3 (startYear mt + int i * dataTimeStep mt) = Some (int i)"
      using walked_period_year [OF assms(1) w iY] by simp
    then have "?D ! i = int i" using fd(3) i by (simp add: lookup0_def)
    moreover have "dataOffset mt' ! i = 0" using fd(4) i h by simp
    ultimately show "dataOffset mt' ! i = 0 \<and> ?D ! i = int i" by simp
  qed
  show ?thesis using run fd(1,2) each coincide by blast
qed

text \<open>Scenario A, whose data grid has 4 points against 16 periods, and a grid of 5-year
  steps that is its own data grid.\<close>

theorem data_alignment_witness:
  "(valid_config scenarioA \<and> unfinalized scenarioA
    \<and> (\<exists>mt' lg'. set_Modeltime scenarioA [] = Inr (mt', lg')
          \<and> maxDataPeriod mt' = 4 \<and> maxPeriod mt' = 16
          \<and> dataPeriodToModelPeriod mt' ! 3 = 3 \<and> periodToTimeStep mt' ! 3 = 5
          \<and> dataOffset mt' ! 3 = 5 div 5))
   \<and> (valid_config even_grid \<and> unfinalized even_grid
    \<and> (\<exists>mt' lg'. set_Modeltime even_grid [] = Inr (mt', lg')
          \<and> maxDataPeriod mt' = maxPeriod mt'
          \<and> periodToTimeStep mt' = [5, 5, 5, 5, 5, 5, 5]
          \<and> dataOffset mt' ! 6 = 0 \<and> dataPeriodToModelPeriod mt' ! 6 = 6))"
proof -
  obtain mtA lgA where runA: "set_Modeltime scenarioA [] = Inr (mtA, lgA)"
    and eachA: "\<forall>i < nat (maxDataPeriod mtA).
                 0 \<le> dataPeriodToModelPeriod mtA ! i
                 \<and> dataPeriodToModelPeriod mtA ! i < maxPeriod mtA
                 \<and> dataOffset mtA ! i =
                     (if maxDataPeriod mtA = maxPeriod mtA then 0
                      else dataTimeStep scenarioA
                        div periodToTimeStep mtA ! nat (dataPeriodToModelPeriod mtA ! i))"
    using data_alignment [of scenarioA "[]"] scenarioA_ok by blast
  have "map_option maxDataPeriod (finalize scenarioA) = Some 4"
    and "map_option maxPeriod (finalize scenarioA) = Some 16"
    and "map_option dataPeriodToModelPeriod (finalize scenarioA) = Some [0, 1, 2, 3]"
    and "map_option periodToTimeStep (finalize scenarioA)
           = Some [5, 5, 5, 5, 5, 5, 5, 5, 5, 5, 10, 10, 10, 10, 10, 10]"
    by code_simp+
  then have fA: "maxDataPeriod mtA = 4" "maxPeriod mtA = 16"
    "dataPeriodToModelPeriod mtA = [0, 1, 2, 3]"
    "periodToTimeStep mtA = [5, 5, 5, 5, 5, 5, 5, 5, 5, 5, 10, 10, 10, 10, 10, 10]"
    using runA by (simp_all add: finalize_def)
  have "(3::nat) < nat (maxDataPeriod mtA)" by (simp add: fA)
  then have "dataOffset mtA ! 3 =
                     (if maxDataPeriod mtA = maxPeriod mtA then 0
                      else dataTimeStep scenarioA
                        div periodToTimeStep mtA ! nat (dataPeriodToModelPeriod mtA ! 3))"
    using eachA by blast
  then have offA: "dataOffset mtA ! 3 = 5 div 5"
    by (simp add: fA scenario_fields)
  obtain mtE lgE where runE: "set_Modeltime even_grid [] = Inr (mtE, lgE)"
    and coE: "maxDataPeriod mtE = maxPeriod mtE
                \<and> (\<forall>k < nat (maxPeriod mtE). periodToTimeStep mtE ! k = dataTimeStep even_grid)
               \<longrightarrow> (\<forall>i < nat (maxDataPeriod mtE).
                      dataOffset mtE ! i = 0 \<and> dataPeriodToModelPeriod mtE ! i = int i)"
    using data_alignment [of even_grid "[]"] even_grid_ok by blast
  have "map_option maxDataPeriod (finalize even_grid) = Some 7"
    and "map_option maxPeriod (finalize even_grid) = Some 7"
    and "map_option periodToTimeStep (finalize even_grid) = Some [5, 5, 5, 5, 5, 5, 5]"
    by code_simp+
  then have fE: "maxDataPeriod mtE = 7" "maxPeriod mtE = 7"
    "periodToTimeStep mtE = [5, 5, 5, 5, 5, 5, 5]"
    using runE by (simp_all add: finalize_def)
  have dE: "dataTimeStep even_grid = 5"
    by (simp add: even_grid_def configure_def Modeltime_new_def initElementalMembers_def)
  have "\<forall>k < nat (maxPeriod mtE). periodToTimeStep mtE ! k = dataTimeStep even_grid"
    by (simp add: fE dE nth_Cons' less_Suc_eq numeral_nat)
  then have "\<forall>i < nat (maxDataPeriod mtE).
                      dataOffset mtE ! i = 0 \<and> dataPeriodToModelPeriod mtE ! i = int i"
    using coE fE by simp
  moreover have "(6::nat) < nat (maxDataPeriod mtE)" by (simp add: fE)
  ultimately have "dataOffset mtE ! 6 = 0 \<and> dataPeriodToModelPeriod mtE ! 6 = int 6"
    by blast
  then show ?thesis
    using runA offA fA runE fE scenarioA_ok even_grid_ok by auto
qed

text \<open>The claim as written fails on a data grid of 1-year steps over 2-year periods: the
  grids differ (7 data periods, 4 model periods), and still every \<open>dataOffset\<close> entry is
  \<open>1 div 2 = 0\<close>.  And equal step lengths with \<open>dataEndYear = endYear\<close> do not make the
  grids coincide when an era is uneven: then no \<open>dataOffset\<close> entry is 0, and data
  period 2 is model period 3.\<close>

theorem data_alignment_counterexample:
  "map_option maxDataPeriod (finalize fine_data) = Some 7
   \<and> map_option maxPeriod (finalize fine_data) = Some 4
   \<and> map_option dataOffset (finalize fine_data) = Some [0, 0, 0, 0, 0, 0, 0]
   \<and> timeStep1 uneven_uniform = dataTimeStep uneven_uniform
   \<and> timeStep2 uneven_uniform = dataTimeStep uneven_uniform
   \<and> timeStep3 uneven_uniform = dataTimeStep uneven_uniform
   \<and> dataEndYear uneven_uniform = endYear uneven_uniform
   \<and> map_option dataOffset (finalize uneven_uniform) = Some [1, 1, 1, 1, 1, 1]
   \<and> map_option dataPeriodToModelPeriod (finalize uneven_uniform) = Some [0, 1, 3, 4, 5, 6]"
  by code_simp

text \<open>
  C9.  For every valid configuration \<^verbatim>\<open>set\<close> returns, and a second call of \<^verbatim>\<open>set\<close> on
  the object it has made returns as well and leaves the whole object as it is: the nine
  configuration scalars, the counts, \<open>maxPeriod\<close>, \<open>maxDataPeriod\<close>, the four vectors and
  the year map.  (Only the log grows: the warnings of uneven eras are logged again.)
\<close>

theorem set_idempotent:
  assumes "valid_config mt" "unfinalized mt"
  shows "\<exists>mt' lg' lg''. set_Modeltime mt lg = Inr (mt', lg')
           \<and> set_Modeltime mt' lg' = Inr (mt', lg'')"
proof -
  obtain mt3 mt' where run: "set_Modeltime mt lg = Inr (mt', warnings mt lg)"
    and w: "walked mt mt3" and a: "aligned mt3 mt'"
    using set_runs [OF assms] by blast
  note fa = aligned_fields [OF a] and fw = walked_fields [OF w]
  have cfg: "startYear mt' = startYear mt" "interYear1 mt' = interYear1 mt"
    "interYear2 mt' = interYear2 mt" "endYear mt' = endYear mt"
    "dataEndYear mt' = dataEndYear mt" "dataTimeStep mt' = dataTimeStep mt"
    "timeStep1 mt' = timeStep1 mt" "timeStep2 mt' = timeStep2 mt" "timeStep3 mt' = timeStep3 mt"
    by (simp_all add: fa fw)
  note cong = with_counts_cong [OF cfg]
  have v': "valid_config mt'" using assms(1) cong(13) by simp
  have below: "map_below (yearToModelPeriod mt') (maxPeriod (with_counts mt'))"
    using final_below [OF assms w a] cong(10) by simp
  obtain mt3' mt'' where
    run2: "set_Modeltime mt' (warnings mt lg) = Inr (mt'', warnings mt' (warnings mt lg))"
    and w2: "walked mt' mt3'" and a2: "aligned mt3' mt''"
    using set_Modeltime_spec [OF v' below, of "warnings mt lg"] by blast
  have "mt'' = mt'"
    by (rule second_run_same [OF assms w a w2 a2])
  then show ?thesis using run run2 by blast
qed

text \<open>Scenario B, run twice.\<close>

theorem set_idempotent_witness:
  "valid_config scenarioB \<and> unfinalized scenarioB
   \<and> (\<exists>mt' lg' lg''. set_Modeltime scenarioB [] = Inr (mt', lg')
         \<and> set_Modeltime mt' lg' = Inr (mt', lg''))"
  using set_idempotent [of scenarioB "[]"] scenarioB_ok by simp

text \<open>
  C10.  For every valid configuration and every data-grid year
  \<open>startYear + i * dataTimeStep \<le> dataEndYear\<close> that lies after \<open>endYear\<close>: the walk over the
  periods (lines 179--255) leaves the year out of the map; the lookup of the data loop
  inserts it with the value 0, so that after \<^verbatim>\<open>set\<close> the year is a key with period 0,
  \<open>dataPeriodToModelPeriod ! i = 0\<close>, \<open>dataPeriodToModelPeriod\<close> is not sorted if an earlier
  entry is positive, and \<^verbatim>\<open>getyr_to_per\<close> returns 0 for the year without logging.
\<close>

theorem data_year_past_end:
  assumes "valid_config mt" "unfinalized mt"
    and "endYear mt < startYear mt + int i * dataTimeStep mt"
    and "startYear mt + int i * dataTimeStep mt \<le> dataEndYear mt"
  shows "\<exists>mt3 mt' lg'.
           set_upto_years mt lg = Inr (mt3, lg') \<and> set_data mt3 = Inr mt'
           \<and> set_Modeltime mt lg = Inr (mt', lg')
           \<and> yearToModelPeriod mt3 (startYear mt + int i * dataTimeStep mt) = None
           \<and> map_subscript (yearToModelPeriod mt3) (startYear mt + int i * dataTimeStep mt)
               = (0, (yearToModelPeriod mt3)(startYear mt + int i * dataTimeStep mt \<mapsto> 0))
           \<and> yearToModelPeriod mt' (startYear mt + int i * dataTimeStep mt) = Some 0
           \<and> i < length (dataPeriodToModelPeriod mt')
           \<and> dataPeriodToModelPeriod mt' ! i = 0
           \<and> ((\<exists>j<i. 0 < dataPeriodToModelPeriod mt' ! j)
                \<longrightarrow> \<not> sorted (dataPeriodToModelPeriod mt'))
           \<and> (\<forall>lg2. getyr_to_per mt' (startYear mt + int i * dataTimeStep mt) lg2 = (0, lg2))"
proof -
  let ?key = "startYear mt + int i * dataTimeStep mt"
  obtain mt3 mt' where run: "set_Modeltime mt lg = Inr (mt', warnings mt lg)"
    and upto: "set_upto_years mt lg = Inr (mt3, warnings mt lg)"
    and data: "set_data mt3 = Inr mt'"
    and w: "walked mt mt3" and a: "aligned mt3 mt'"
    using set_runs [OF assms(1,2)] by blast
  note fa = aligned_fields [OF a] and fw = walked_fields [OF w]
  note fd = final_data [OF assms(1) w a]
  let ?D = "dataPeriodToModelPeriod mt'"
  have absent: "yearToModelPeriod mt3 ?key = None"
    using walked_map(4) [OF assms(1) w] assms(2,3) by (simp add: unfinalized_def)
  have sub: "map_subscript (yearToModelPeriod mt3) ?key
               = (0, (yearToModelPeriod mt3)(?key \<mapsto> 0))"
    using absent by (simp add: map_subscript_def)
  have nd: "maxDataPeriod mt' = maxDataPeriod (with_counts mt)" by (simp add: fa fw)
  have i: "i < nat (maxDataPeriod mt')"
    using data_index_bound [OF assms(1), of i] assms(4) nd by simp
  then have grid: "on_data_grid (startYear mt3) (dataTimeStep mt3) (nat (maxDataPeriod mt3)) ?key"
    unfolding on_data_grid_def using fa fw by auto
  have present: "yearToModelPeriod mt' ?key = Some 0"
    using final_map_none [OF a absent] grid by simp
  have iD: "i < length ?D" using i fd(2) by simp
  have zero: "?D ! i = 0"
    using fd(3) i absent by (simp add: lookup0_def)
  have unsorted: "(\<exists>j<i. 0 < ?D ! j) \<longrightarrow> \<not> sorted ?D"
  proof (intro impI notI)
    assume "\<exists>j<i. 0 < ?D ! j" and s: "sorted ?D"
    then obtain j where j: "j < i" "0 < ?D ! j" by blast
    then have "?D ! j \<le> ?D ! i"
      using s iD by (simp add: sorted_nth_mono)
    then show False using j zero by simp
  qed
  have get: "\<forall>lg2. getyr_to_per mt' ?key lg2 = (0, lg2)"
    using present by (simp add: getyr_to_per_def)
  show ?thesis
    using upto data run absent sub present iD zero unsorted get by blast
qed

text \<open>A model that ends in 2006 with data until 2010: the data year 2008 is data period
  4.\<close>

theorem data_year_past_end_witness:
  "valid_config long_data \<and> unfinalized long_data
   \<and> endYear long_data < startYear long_data + int 4 * dataTimeStep long_data
   \<and> startYear long_data + int 4 * dataTimeStep long_data \<le> dataEndYear long_data
   \<and> (\<exists>mt3 mt' lg'.
         set_upto_years long_data [] = Inr (mt3, lg') \<and> set_data mt3 = Inr mt'
         \<and> set_Modeltime long_data [] = Inr (mt', lg')
         \<and> yearToModelPeriod mt3 2008 = None
         \<and> yearToModelPeriod mt' 2008 = Some 0
         \<and> dataPeriodToModelPeriod mt' = [0, 1, 2, 3, 0, 0]
         \<and> \<not> sorted (dataPeriodToModelPeriod mt')
         \<and> getyr_to_per mt' 2008 [] = (0, []))"
proof -
  have h: "endYear long_data < startYear long_data + int 4 * dataTimeStep long_data"
    "startYear long_data + int 4 * dataTimeStep long_data \<le> dataEndYear long_data"
    by (simp_all add: long_data_fields)
  obtain mt3 mt' lg' where
    run: "set_upto_years long_data [] = Inr (mt3, lg')" "set_data mt3 = Inr mt'"
      "set_Modeltime long_data [] = Inr (mt', lg')"
    and facts: "yearToModelPeriod mt3 (startYear long_data + int 4 * dataTimeStep long_data) = None"
      "yearToModelPeriod mt' (startYear long_data + int 4 * dataTimeStep long_data) = Some 0"
      "(\<exists>j<4. 0 < dataPeriodToModelPeriod mt' ! j) \<longrightarrow> \<not> sorted (dataPeriodToModelPeriod mt')"
      "\<forall>lg2. getyr_to_per mt' (startYear long_data + int 4 * dataTimeStep long_data) lg2
               = (0, lg2)"
    using data_year_past_end [of long_data 4 "[]"] long_data_ok h by blast
  have "map_option dataPeriodToModelPeriod (finalize long_data) = Some [0, 1, 2, 3, 0, 0]"
    by code_simp
  then have D: "dataPeriodToModelPeriod mt' = [0, 1, 2, 3, 0, 0]"
    using run(3) by (simp add: finalize_def)
  have "(1::nat) < 4 \<and> 0 < dataPeriodToModelPeriod mt' ! 1" by (simp add: D)
  then have "\<not> sorted (dataPeriodToModelPeriod mt')" using facts(3) by blast
  then show ?thesis
    using run facts(1,2,4) D h long_data_ok by (auto simp: long_data_fields)
qed

end
